theory Spec2Isabelle
  imports Complex_Main
begin

section \<open>The table-aware query cache (class RedisDrizzleCache)\<close>

text \<open>
  A shallow embedding of the class \<^verbatim>\<open>RedisDrizzleCache\<close>: its constructor, \<^verbatim>\<open>get\<close>,
  \<^verbatim>\<open>put\<close>, \<^verbatim>\<open>onMutate\<close>, \<^verbatim>\<open>formatKey\<close> and \<^verbatim>\<open>calculateTtl\<close>. The instance is a record;
  the Redis server, the list of commands sent to it and the console are an explicit
  \<open>world\<close> that every method takes and returns. A rejected promise or a thrown exception
  is a value \<open>Inl e\<close>; the \<^verbatim>\<open>try/catch\<close> blocks of the source are written out.

  What lies outside the class is a parameter of the model:
  \<^item> \<open>J\<close>, the pair \<^verbatim>\<open>JSON.stringify\<close> / \<^verbatim>\<open>JSON.parse\<close> (\<open>None\<close> when the call throws
    or gives no text);
  \<^item> \<open>fails\<close>, which of the commands sent to Redis are rejected (network, protocol);
  \<^item> \<open>now\<close>, the value of \<^verbatim>\<open>Date.now()\<close> in milliseconds during the call.
  Numbers are integers: TTLs and epoch instants are whole seconds or milliseconds.
\<close>

subsection \<open>Errors and configuration\<close>

datatype error = TypeError | SyntaxError | RedisError

text \<open>The strategies \<^verbatim>\<open>"explicit"\<close> and \<^verbatim>\<open>"all"\<close>.\<close>

datatype strategy = Explicit | EveryQuery

text \<open>The handle to the store; the store itself is part of the \<open>world\<close> below.\<close>

datatype RedisClient = RedisClient

text \<open>\<^verbatim>\<open>RedisCacheConfig\<close>: the constructor's argument. An absent property is \<open>None\<close>.\<close>

record RedisCacheConfig =
  cfg_redis :: "RedisClient option"
  cfg_defaultTtl :: "int option"
  cfg_strategy :: "strategy option"
  cfg_namespace :: "string option"

text \<open>\<^verbatim>\<open>CacheConfig\<close> of drizzle-orm: the per-call expiry hints read by \<^verbatim>\<open>calculateTtl\<close>.\<close>

record CacheConfig =
  ex :: "int option"
  px :: "int option"
  exat :: "int option"
  pxat :: "int option"

subsection \<open>The instance\<close>

text \<open>
  \<^verbatim>\<open>usedTablesPerKey\<close> is a plain object \<^verbatim>\<open>{}\<close>: the map holds its own properties.
\<close>

record cache =
  redis :: "RedisClient option"
  defaultTtl :: int
  namespace :: string
  strategy_field :: strategy
  usedTablesPerKey :: "string \<rightharpoonup> string list"

definition constructor :: "RedisCacheConfig \<Rightarrow> error + cache" where
  "constructor cfg =
     Inr \<lparr> redis = cfg_redis cfg,
           defaultTtl = (case cfg_defaultTtl cfg of None \<Rightarrow> 300 | Some d \<Rightarrow> d),
           namespace = (case cfg_namespace cfg of None \<Rightarrow> ''drizzle'' | Some n \<Rightarrow> n),
           strategy_field = (case cfg_strategy cfg of None \<Rightarrow> EveryQuery | Some s \<Rightarrow> s),
           usedTablesPerKey = Map.empty \<rparr>"

definition strategy :: "cache \<Rightarrow> strategy" where
  "strategy this = strategy_field this"

definition formatKey :: "cache \<Rightarrow> string \<Rightarrow> string" where
  "formatKey this key = namespace this @ '':'' @ key"

text \<open>
  \<^verbatim>\<open>calculateTtl\<close>. \<^verbatim>\<open>config?.ex\<close> is \<open>Option.bind config ex\<close>; on integers
  \<^verbatim>\<open>Math.floor(x / 1000)\<close> is \<open>x div 1000\<close> (\<open>div\<close> rounds down, also below zero).
\<close>

definition calculateTtl :: "cache \<Rightarrow> int \<Rightarrow> CacheConfig option \<Rightarrow> int" where
  "calculateTtl this date_now config =
     (case Option.bind config ex of Some e \<Rightarrow> e
      | None \<Rightarrow>
     (case Option.bind config px of Some p \<Rightarrow> p div 1000
      | None \<Rightarrow>
     (case Option.bind config exat of
        Some a \<Rightarrow> (let now = date_now div 1000 in max 0 (a - now))
      | None \<Rightarrow>
     (case Option.bind config pxat of
        Some a \<Rightarrow> (let now = date_now div 1000 in max 0 (a div 1000 - now))
      | None \<Rightarrow> defaultTtl this))))"

subsection \<open>The Redis server, as the class uses it\<close>

text \<open>
  The three commands the class sends. The server keeps, for each key, the instant (in
  milliseconds) at which the entry expires and the payload. A command that \<open>fails\<close>
  rejects the promise and changes nothing; \<^verbatim>\<open>SETEX\<close> with a TTL that is not positive is
  rejected by the server. Every command sent is appended to \<open>calls\<close>.
\<close>

datatype redis_call = GET string | SETEX string int string | UNLINK string

record world =
  entries :: "string \<rightharpoonup> (int \<times> string)"
  calls :: "redis_call list"
  console :: "(string \<times> error) list"

definition live :: "world \<Rightarrow> int \<Rightarrow> string \<Rightarrow> string option" where
  "live w now k =
     (case entries w k of None \<Rightarrow> None
      | Some (expires, payload) \<Rightarrow> if now < expires then Some payload else None)"

definition redis_get ::
  "(redis_call \<Rightarrow> bool) \<Rightarrow> int \<Rightarrow> string \<Rightarrow> world \<Rightarrow> (error + string option) \<times> world" where
  "redis_get fails now k w =
     (let w' = w\<lparr>calls := calls w @ [GET k]\<rparr>
      in if fails (GET k) then (Inl RedisError, w') else (Inr (live w now k), w'))"

definition redis_setex ::
  "(redis_call \<Rightarrow> bool) \<Rightarrow> int \<Rightarrow> string \<Rightarrow> int \<Rightarrow> string \<Rightarrow> world \<Rightarrow> (error + unit) \<times> world" where
  "redis_setex fails now k ttl v w =
     (let w' = w\<lparr>calls := calls w @ [SETEX k ttl v]\<rparr>
      in if fails (SETEX k ttl v) \<or> ttl \<le> 0 then (Inl RedisError, w')
         else (Inr (), w'\<lparr>entries := (entries w)(k \<mapsto> (now + ttl * 1000, v))\<rparr>))"

definition redis_unlink ::
  "(redis_call \<Rightarrow> bool) \<Rightarrow> string \<Rightarrow> world \<Rightarrow> (error + unit) \<times> world" where
  "redis_unlink fails k w =
     (let w' = w\<lparr>calls := calls w @ [UNLINK k]\<rparr>
      in if fails (UNLINK k) then (Inl RedisError, w')
         else (Inr (), w'\<lparr>entries := (entries w)(k := None)\<rparr>))"

subsection \<open>Property reads on the tracking object\<close>

text \<open>
  \<^verbatim>\<open>this.usedTablesPerKey[table]\<close> reads an own property when there is one, and otherwise
  follows the prototype chain to \<^verbatim>\<open>Object.prototype\<close>: for the names below the read gives
  a function or an object, which is neither \<^verbatim>\<open>undefined\<close> nor an array.
\<close>

definition Object_prototype_names :: "string list" where
  "Object_prototype_names =
     [''constructor'', ''__proto__'', ''hasOwnProperty'', ''isPrototypeOf'',
      ''propertyIsEnumerable'', ''toLocaleString'', ''toString'', ''valueOf'',
      ''__defineGetter__'', ''__defineSetter__'', ''__lookupGetter__'', ''__lookupSetter__'']"

datatype property = Undefined | Array "string list" | Inherited

definition getProperty :: "(string \<rightharpoonup> string list) \<Rightarrow> string \<Rightarrow> property" where
  "getProperty obj name =
     (case obj name of Some ks \<Rightarrow> Array ks
      | None \<Rightarrow> if name \<in> set Object_prototype_names then Inherited else Undefined)"

text \<open>The tracked keys of a table: the array stored under its name, empty when there is none.\<close>

definition trackedKeys :: "(string \<rightharpoonup> string list) \<Rightarrow> string \<Rightarrow> string list" where
  "trackedKeys used t = (case used t of None \<Rightarrow> [] | Some ks \<Rightarrow> ks)"

definition tracked :: "cache \<Rightarrow> string \<Rightarrow> string list" where
  "tracked this t = trackedKeys (usedTablesPerKey this) t"

subsection \<open>get\<close>

record 'v JSON =
  stringify :: "'v \<Rightarrow> string option"
  parse :: "string \<Rightarrow> 'v option"

text \<open>The body of the \<^verbatim>\<open>try\<close> block; \<^verbatim>\<open>!cached\<close> holds for \<^verbatim>\<open>null\<close> and for the empty string.\<close>

definition get_try ::
  "'v JSON \<Rightarrow> (redis_call \<Rightarrow> bool) \<Rightarrow> int \<Rightarrow> cache \<Rightarrow> string \<Rightarrow> world
     \<Rightarrow> (error + 'v option) \<times> world" where
  "get_try J fails now this cacheKey w =
     (case redis this of
        None \<Rightarrow> (Inl TypeError, w)
      | Some client \<Rightarrow>
          (case redis_get fails now cacheKey w of
             (Inl e, w') \<Rightarrow> (Inl e, w')
           | (Inr cached, w') \<Rightarrow>
               (case cached of
                  None \<Rightarrow> (Inr None, w')
                | Some s \<Rightarrow>
                    if s = [] then (Inr None, w')
                    else (case parse J s of
                            None \<Rightarrow> (Inl SyntaxError, w')
                          | Some v \<Rightarrow> (Inr (Some v), w')))))"

definition get_failed :: "string \<Rightarrow> string" where
  "get_failed cacheKey = ''[RedisDrizzleCache] GET failed for key '' @ cacheKey @ '':''"

definition get ::
  "'v JSON \<Rightarrow> (redis_call \<Rightarrow> bool) \<Rightarrow> int \<Rightarrow> cache \<Rightarrow> string \<Rightarrow> world
     \<Rightarrow> (error + 'v option) \<times> world" where
  "get J fails now this key w =
     (let cacheKey = formatKey this key
      in case get_try J fails now this cacheKey w of
           (Inr r, w') \<Rightarrow> (Inr r, w')
         | (Inl e, w') \<Rightarrow>
             (Inr None, w'\<lparr>console := console w' @ [(get_failed cacheKey, e)]\<rparr>))"

subsection \<open>put\<close>

text \<open>
  The loop over \<^verbatim>\<open>tables\<close>. On a name inherited from \<^verbatim>\<open>Object.prototype\<close> the read is not
  \<^verbatim>\<open>undefined\<close> and has no \<^verbatim>\<open>includes\<close>: the call throws, and the tables registered so far
  stay registered.
\<close>

fun track :: "string \<Rightarrow> string list \<Rightarrow> (string \<rightharpoonup> string list)
    \<Rightarrow> error option \<times> (string \<rightharpoonup> string list)" where
  "track key [] used = (None, used)"
| "track key (table # rest) used =
     (case getProperty used table of
        Undefined \<Rightarrow> track key rest (used(table \<mapsto> [key]))
      | Array ks \<Rightarrow>
          if key \<in> set ks then track key rest used
          else track key rest (used(table \<mapsto> ks @ [key]))
      | Inherited \<Rightarrow> (Some TypeError, used))"

definition put_try ::
  "'v JSON \<Rightarrow> (redis_call \<Rightarrow> bool) \<Rightarrow> int \<Rightarrow> cache \<Rightarrow> string \<Rightarrow> int \<Rightarrow> string \<Rightarrow> 'v
     \<Rightarrow> string list \<Rightarrow> world \<Rightarrow> error option \<times> cache \<times> world" where
  "put_try J fails now this cacheKey ttl key response tbls w =
     (case redis this of
        None \<Rightarrow> (Some TypeError, this, w)
      | Some client \<Rightarrow>
          (case stringify J response of
             None \<Rightarrow> (Some TypeError, this, w)
           | Some payload \<Rightarrow>
               (case redis_setex fails now cacheKey ttl payload w of
                  (Inl e, w') \<Rightarrow> (Some e, this, w')
                | (Inr u, w') \<Rightarrow>
                    (case track key tbls (usedTablesPerKey this) of
                       (thrown, used') \<Rightarrow> (thrown, this\<lparr>usedTablesPerKey := used'\<rparr>, w')))))"

definition put_failed :: "string \<Rightarrow> string" where
  "put_failed cacheKey = ''[RedisDrizzleCache] PUT failed for key '' @ cacheKey @ '':''"

definition put ::
  "'v JSON \<Rightarrow> (redis_call \<Rightarrow> bool) \<Rightarrow> int \<Rightarrow> cache \<Rightarrow> string \<Rightarrow> 'v \<Rightarrow> string list \<Rightarrow> bool
     \<Rightarrow> CacheConfig option \<Rightarrow> world \<Rightarrow> (error + unit) \<times> cache \<times> world" where
  "put J fails now this key response tbls isTag config w =
     (let cacheKey = formatKey this key;
          ttl = calculateTtl this now config
      in case put_try J fails now this cacheKey ttl key response tbls w of
           (None, this', w') \<Rightarrow> (Inr (), this', w')
         | (Some e, this', w') \<Rightarrow>
             (Inr (), this', w'\<lparr>console := console w' @ [(put_failed cacheKey, e)]\<rparr>))"

subsection \<open>onMutate\<close>

text \<open>
  The parameters: \<^verbatim>\<open>tags\<close> is a string or an array of strings, \<^verbatim>\<open>tables\<close> a table (its
  name, or a drizzle \<^verbatim>\<open>Table\<close> object, of which only the name is read) or an array of
  tables. A value is wrapped in an array when it is truthy: the empty string is not, an
  object and an array (even an empty one) are.
\<close>

datatype 'a one_or_many = One 'a | Many "'a list"

datatype table_ref = TableName string | TableObject string

record mutate_params =
  tags :: "string one_or_many"
  tables :: "table_ref one_or_many"

definition tagsArray :: "mutate_params \<Rightarrow> string list" where
  "tagsArray params =
     (case tags params of
        One s \<Rightarrow> if s = [] then [] else [s]
      | Many ss \<Rightarrow> ss)"

definition tablesArray :: "mutate_params \<Rightarrow> table_ref list" where
  "tablesArray params =
     (case tables params of
        One (TableName s) \<Rightarrow> if s = [] then [] else [TableName s]
      | One (TableObject n) \<Rightarrow> [TableObject n]
      | Many ts \<Rightarrow> ts)"

text \<open>\<^verbatim>\<open>is(table, Table) ? getTableName(table) : (table as string)\<close>\<close>

fun tableName :: "table_ref \<Rightarrow> string" where
  "tableName (TableName s) = s"
| "tableName (TableObject n) = n"

text \<open>\<^verbatim>\<open>keysToDelete\<close>, a \<^verbatim>\<open>Set\<close>: it iterates in the order of first insertion.\<close>

definition set_add :: "string \<Rightarrow> string list \<Rightarrow> string list" where
  "set_add k s = (if k \<in> set s then s else s @ [k])"

text \<open>
  The first loop, over \<^verbatim>\<open>tablesArray\<close>. A read that gives an inherited function or object
  is not iterable: \<^verbatim>\<open>for (const key of keys)\<close> throws.
\<close>

fun collect :: "(string \<rightharpoonup> string list) \<Rightarrow> table_ref list \<Rightarrow> string list
    \<Rightarrow> error + string list" where
  "collect used [] keysToDelete = Inr keysToDelete"
| "collect used (table # rest) keysToDelete =
     (case getProperty used (tableName table) of
        Undefined \<Rightarrow> collect used rest keysToDelete
      | Array ks \<Rightarrow> collect used rest (fold set_add ks keysToDelete)
      | Inherited \<Rightarrow> Inl TypeError)"

text \<open>
  The deletions: every \<^verbatim>\<open>unlink\<close> is sent, in order; the result says whether one of the
  promises was rejected, which is what \<^verbatim>\<open>Promise.all\<close> reports.
\<close>

fun unlink_all :: "(redis_call \<Rightarrow> bool) \<Rightarrow> string list \<Rightarrow> world \<Rightarrow> bool \<times> world" where
  "unlink_all fails [] w = (False, w)"
| "unlink_all fails (k # ks) w =
     (case redis_unlink fails k w of
        (r, w') \<Rightarrow>
          (case unlink_all fails ks w' of
             (rejected, w'') \<Rightarrow> ((case r of Inl e \<Rightarrow> True | Inr u \<Rightarrow> rejected), w'')))"

text \<open>The third loop: \<^verbatim>\<open>this.usedTablesPerKey[tableName] = []\<close> for every table.\<close>

fun cleanup :: "table_ref list \<Rightarrow> (string \<rightharpoonup> string list) \<Rightarrow> (string \<rightharpoonup> string list)" where
  "cleanup [] used = used"
| "cleanup (table # rest) used = cleanup rest (used(tableName table \<mapsto> []))"

definition onMutate ::
  "(redis_call \<Rightarrow> bool) \<Rightarrow> cache \<Rightarrow> mutate_params \<Rightarrow> world \<Rightarrow> (error + unit) \<times> cache \<times> world" where
  "onMutate fails this params w =
     (case collect (usedTablesPerKey this) (tablesArray params) [] of
        Inl e \<Rightarrow> (Inl e, this, w)
      | Inr keysToDelete \<Rightarrow>
          if keysToDelete \<noteq> [] \<or> tagsArray params \<noteq> [] then
            (case redis this of
               None \<Rightarrow> (Inl TypeError, this, w)
             | Some client \<Rightarrow>
                 (case unlink_all fails
                         (map (\<lambda>tag. formatKey this (''tag:'' @ tag)) (tagsArray params)
                          @ map (formatKey this) keysToDelete) w of
                    (rejected, w') \<Rightarrow>
                      ((if rejected then Inl RedisError else Inr ()),
                       this\<lparr>usedTablesPerKey :=
                              cleanup (tablesArray params) (usedTablesPerKey this)\<rparr>,
                       w')))
          else (Inr (), this, w))"

subsection \<open>Concrete instances used to run the model\<close>

text \<open>
  \<^verbatim>\<open>JSON.stringify\<close> and \<^verbatim>\<open>JSON.parse\<close> on a fragment of the JavaScript values: arrays
  whose elements are \<^verbatim>\<open>null\<close>, \<^verbatim>\<open>NaN\<close>, \<^verbatim>\<open>true\<close> or \<^verbatim>\<open>false\<close>. \<^verbatim>\<open>JSON.stringify\<close> writes
  \<^verbatim>\<open>NaN\<close> as \<^verbatim>\<open>null\<close> and puts no white space. \<open>parse_array\<close> reads the texts that
  \<^verbatim>\<open>JSON.stringify\<close> writes for this fragment; every other text is outside the fragment
  and reads as \<open>None\<close>, as a text that is not JSON does.
\<close>

datatype jsvalue = JSNull | JSNaN | JSBool bool

fun stringify_value :: "jsvalue \<Rightarrow> string" where
  "stringify_value JSNull = ''null''"
| "stringify_value JSNaN = ''null''"
| "stringify_value (JSBool True) = ''true''"
| "stringify_value (JSBool False) = ''false''"

fun stringify_elements :: "jsvalue list \<Rightarrow> string" where
  "stringify_elements [] = []"
| "stringify_elements [v] = stringify_value v"
| "stringify_elements (v # w # vs) = stringify_value v @ '','' @ stringify_elements (w # vs)"

definition stringify_array :: "jsvalue list \<Rightarrow> string" where
  "stringify_array vs = ''['' @ stringify_elements vs @ '']''"

definition parse_value :: "string \<Rightarrow> (jsvalue \<times> string) option" where
  "parse_value s =
     (if take 4 s = ''null'' then Some (JSNull, drop 4 s)
      else if take 4 s = ''true'' then Some (JSBool True, drop 4 s)
      else if take 5 s = ''false'' then Some (JSBool False, drop 5 s)
      else None)"

function parse_elements :: "string \<Rightarrow> jsvalue list option" where
  "parse_elements s =
     (case parse_value s of
        None \<Rightarrow> None
      | Some (v, rest) \<Rightarrow>
          if rest = '']'' then Some [v]
          else if take 1 rest = '','' then map_option (Cons v) (parse_elements (drop 1 rest))
          else None)"
  by pat_completeness auto
termination
proof (relation "measure length")
  show "wf (measure length)" by simp
next
  fix s :: string and x v rest
  assume "parse_value s = Some x" and "(v, rest) = x" and "take 1 rest = '',''"
  then have "length rest \<le> length s" and "rest \<noteq> []"
    by (auto simp: parse_value_def split: if_splits)
  then show "(drop 1 rest, s) \<in> measure length"
    by (cases rest) auto
qed

declare parse_elements.simps [simp del]

definition parse_array :: "string \<Rightarrow> jsvalue list option" where
  "parse_array s =
     (if s = ''[]'' then Some []
      else if take 1 s = ''['' then parse_elements (drop 1 s)
      else None)"

definition array_JSON :: "jsvalue list JSON" where
  "array_JSON = \<lparr> stringify = (\<lambda>vs. Some (stringify_array vs)), parse = parse_array \<rparr>"

definition no_failure :: "redis_call \<Rightarrow> bool" where
  "no_failure c = False"

definition fresh_cache :: cache where
  "fresh_cache =
     \<lparr> redis = Some RedisClient, defaultTtl = 300, namespace = ''drizzle'',
       strategy_field = EveryQuery, usedTablesPerKey = Map.empty \<rparr>"

definition empty_world :: world where
  "empty_world = \<lparr> entries = Map.empty, calls = [], console = [] \<rparr>"

text \<open>A store that holds, under the physical key of \<^verbatim>\<open>q1\<close>, a payload that is not JSON.\<close>

definition corrupt_world :: world where
  "corrupt_world =
     \<lparr> entries = [''drizzle:q1'' \<mapsto> (1700000300000, ''oops'')], calls = [], console = [] \<rparr>"

text \<open>A configuration with no store handle, and the instance the constructor makes of it.\<close>

definition no_store_config :: RedisCacheConfig where
  "no_store_config =
     \<lparr> cfg_redis = None, cfg_defaultTtl = None, cfg_strategy = None, cfg_namespace = None \<rparr>"

definition no_store_cache :: cache where
  "no_store_cache =
     \<lparr> redis = None, defaultTtl = 300, namespace = ''drizzle'',
       strategy_field = EveryQuery, usedTablesPerKey = Map.empty \<rparr>"

definition setex_fails :: "redis_call \<Rightarrow> bool" where
  "setex_fails c = (case c of SETEX k ttl v \<Rightarrow> True | GET k \<Rightarrow> False | UNLINK k \<Rightarrow> False)"

text \<open>
  The spec's scenarios, run on the model: \<^verbatim>\<open>put("q1", rows, ["users"])\<close> on a new instance,
  then \<^verbatim>\<open>put("q2", rows2, ["posts"])\<close>; a \<^verbatim>\<open>put\<close> of \<^verbatim>\<open>q1\<close> under no table and under two
  tables; and \<^verbatim>\<open>onMutate\<close> on \<^verbatim>\<open>users\<close> after the first \<^verbatim>\<open>put\<close>. Each is the instance and
  the world the call leaves behind.
\<close>

definition q1_users :: "cache \<times> world" where
  "q1_users = snd (put array_JSON no_failure 1700000000000 fresh_cache ''q1'' [JSBool True]
                     [''users''] False None empty_world)"

definition q2_posts :: "cache \<times> world" where
  "q2_posts = snd (put array_JSON no_failure 1700000001000 (fst q1_users) ''q2'' [JSBool False]
                     [''posts''] False None (snd q1_users))"

definition q1_untracked :: "cache \<times> world" where
  "q1_untracked = snd (put array_JSON no_failure 1700000000000 fresh_cache ''q1'' [JSBool True]
                         [] False None empty_world)"

definition q1_users_posts :: "cache \<times> world" where
  "q1_users_posts = snd (put array_JSON no_failure 1700000000000 fresh_cache ''q1''
                           [JSBool True] [''users'', ''posts''] False None empty_world)"

definition users_invalidated :: "cache \<times> world" where
  "users_invalidated =
     snd (onMutate no_failure (fst q1_users)
            \<lparr>tags = Many [], tables = Many [TableName ''users'']\<rparr> (snd q1_users))"

definition posts_invalidated :: "cache \<times> world" where
  "posts_invalidated =
     snd (onMutate no_failure (fst q2_posts)
            \<lparr>tags = Many [], tables = Many [TableName ''posts'']\<rparr> (snd q2_posts))"

definition users_mutated :: "cache \<times> world" where
  "users_mutated =
     snd (onMutate no_failure (fst q1_users_posts)
            \<lparr>tags = Many [], tables = Many [TableName ''users'']\<rparr> (snd q1_users_posts))"

definition posts_mutated :: "cache \<times> world" where
  "posts_mutated =
     snd (onMutate no_failure (fst users_mutated)
            \<lparr>tags = Many [], tables = Many [TableName ''posts'']\<rparr> (snd users_mutated))"

text \<open>\<^verbatim>\<open>put("q1", [NaN], [], false, undefined)\<close> on a new instance.\<close>

definition nan_put :: "cache \<times> world" where
  "nan_put = snd (put array_JSON no_failure 1700000000000 fresh_cache ''q1'' [JSNaN]
                    [] False None empty_world)"

text \<open>
  \<^verbatim>\<open>put("q1", [true], ["constructor"], false, undefined)\<close> on a new instance, and the
  \<^verbatim>\<open>onMutate({tags: [], tables: ["constructor"]})\<close> that follows it: its result, the
  instance and the world.
\<close>

definition constructor_table_put :: "cache \<times> world" where
  "constructor_table_put =
     snd (put array_JSON no_failure 1700000000000 fresh_cache ''q1'' [JSBool True]
            [''constructor''] False None empty_world)"

definition constructor_table_mutated :: "(error + unit) \<times> cache \<times> world" where
  "constructor_table_mutated =
     onMutate no_failure (fst constructor_table_put)
       \<lparr>tags = Many [], tables = Many [TableName ''constructor'']\<rparr>
       (snd constructor_table_put)"

section \<open>Properties\<close>

subsection \<open>TTL precedence\<close>

lemma floor_div_1000: "\<lfloor>real_of_int p / 1000\<rfloor> = p div 1000"
  using floor_divide_of_int_eq [of p 1000, where ?'a = real] by simp

lemma calculateTtl_precedence:
  "calculateTtl this now config =
     (let c = (case config of
                 None \<Rightarrow> \<lparr>ex = None, px = None, exat = None, pxat = None\<rparr>
               | Some c \<Rightarrow> c);
          now_seconds = \<lfloor>real_of_int now / 1000\<rfloor>
      in if ex c \<noteq> None then the (ex c)
         else if px c \<noteq> None then \<lfloor>real_of_int (the (px c)) / 1000\<rfloor>
         else if exat c \<noteq> None then max 0 (the (exat c) - now_seconds)
         else if pxat c \<noteq> None
           then max 0 (\<lfloor>real_of_int (the (pxat c)) / 1000\<rfloor> - now_seconds)
         else defaultTtl this)"
  by (cases config)
     (auto simp: calculateTtl_def floor_div_1000 Let_def split: option.splits)

lemma put_calls:
  assumes "redis this = Some client" and "stringify J response = Some payload"
  shows "calls (snd (snd (put J fails now this key response tbls isTag config w)))
         = calls w @ [SETEX (formatKey this key) (calculateTtl this now config) payload]"
  using assms
  by (simp add: put_def put_try_def redis_setex_def Let_def
           split: prod.splits option.splits sum.splits)

lemma constructor_defaultTtl:
  "constructor cfg = Inr c \<Longrightarrow> cfg_defaultTtl cfg = None \<Longrightarrow> defaultTtl c = 300"
  by (auto simp: constructor_def)

text \<open>
  Claim C1. Every \<^verbatim>\<open>put\<close> that reaches the store sends exactly one command,
  \<^verbatim>\<open>SETEX\<close> on the physical key, and its TTL follows the fixed precedence: \<^verbatim>\<open>ex\<close> if
  set; else \<^verbatim>\<open>floor(px / 1000)\<close> if \<^verbatim>\<open>px\<close> is set; else \<^verbatim>\<open>max(0, exat - now_seconds)\<close> if
  \<^verbatim>\<open>exat\<close> is set; else \<^verbatim>\<open>max(0, floor(pxat / 1000) - now_seconds)\<close> if \<^verbatim>\<open>pxat\<close> is set;
  else the instance's default TTL, which is 300 when the constructor is given none.
  An absent \<^verbatim>\<open>config\<close> counts as one with nothing set.
\<close>

theorem put_ttl_precedence:
  assumes "redis this = Some client" and "stringify J response = Some payload"
  shows "(\<exists>ttl. calls (snd (snd (put J fails now this key response tbls isTag config w)))
                 = calls w @ [SETEX (formatKey this key) ttl payload]
              \<and> ttl =
                 (let c = (case config of
                             None \<Rightarrow> \<lparr>ex = None, px = None, exat = None, pxat = None\<rparr>
                           | Some c \<Rightarrow> c);
                      now_seconds = \<lfloor>real_of_int now / 1000\<rfloor>
                  in if ex c \<noteq> None then the (ex c)
                     else if px c \<noteq> None then \<lfloor>real_of_int (the (px c)) / 1000\<rfloor>
                     else if exat c \<noteq> None then max 0 (the (exat c) - now_seconds)
                     else if pxat c \<noteq> None
                       then max 0 (\<lfloor>real_of_int (the (pxat c)) / 1000\<rfloor> - now_seconds)
                     else defaultTtl this))
         \<and> (\<forall>cfg c. constructor cfg = Inr c \<and> cfg_defaultTtl cfg = None
                \<longrightarrow> defaultTtl c = 300)"
proof (intro conjI exI allI impI)
  show "calls (snd (snd (put J fails now this key response tbls isTag config w)))
        = calls w @ [SETEX (formatKey this key) (calculateTtl this now config) payload]"
    using assms by (rule put_calls)
next
  show "calculateTtl this now config =
     (let c = (case config of
                 None \<Rightarrow> \<lparr>ex = None, px = None, exat = None, pxat = None\<rparr>
               | Some c \<Rightarrow> c);
          now_seconds = \<lfloor>real_of_int now / 1000\<rfloor>
      in if ex c \<noteq> None then the (ex c)
         else if px c \<noteq> None then \<lfloor>real_of_int (the (px c)) / 1000\<rfloor>
         else if exat c \<noteq> None then max 0 (the (exat c) - now_seconds)
         else if pxat c \<noteq> None
           then max 0 (\<lfloor>real_of_int (the (pxat c)) / 1000\<rfloor> - now_seconds)
         else defaultTtl this)"
    by (rule calculateTtl_precedence)
next
  fix cfg c
  assume "constructor cfg = Inr c \<and> cfg_defaultTtl cfg = None"
  then show "defaultTtl c = 300"
    using constructor_defaultTtl [of cfg c] by blast
qed

text \<open>
  The spec's examples: with \<^verbatim>\<open>{ex: 10, px: 5000}\<close> the command carries 10 seconds, not 5;
  with \<^verbatim>\<open>{exat: now + 20}\<close> alone, 20 seconds; with \<^verbatim>\<open>{}\<close>, the default TTL.
\<close>

theorem put_ttl_precedence_witness:
  "redis fresh_cache = Some RedisClient
   \<and> stringify array_JSON [JSBool True] = Some ''[true]''
   \<and> calls (snd (snd (put array_JSON no_failure 1700000000000 fresh_cache ''q1''
                        [JSBool True] [] False
                        (Some \<lparr>ex = Some 10, px = Some 5000, exat = None, pxat = None\<rparr>)
                        empty_world)))
       = [SETEX ''drizzle:q1'' 10 ''[true]'']
   \<and> calls (snd (snd (put array_JSON no_failure 1700000000000 fresh_cache ''q1''
                        [JSBool True] [] False
                        (Some \<lparr>ex = None, px = None, exat = Some 1700000020, pxat = None\<rparr>)
                        empty_world)))
       = [SETEX ''drizzle:q1'' 20 ''[true]'']
   \<and> calls (snd (snd (put array_JSON no_failure 1700000000000 fresh_cache ''q1''
                        [JSBool True] [] False
                        (Some \<lparr>ex = None, px = None, exat = None, pxat = None\<rparr>)
                        empty_world)))
       = [SETEX ''drizzle:q1'' 300 ''[true]'']"
proof -
  have h1: "redis fresh_cache = Some RedisClient"
    by (simp add: fresh_cache_def)
  have h2: "stringify array_JSON [JSBool True] = Some ''[true]''"
    by code_simp
  have k: "formatKey fresh_cache ''q1'' = ''drizzle:q1''"
    by (simp add: formatKey_def fresh_cache_def)
  have d: "defaultTtl fresh_cache = 300"
    by (simp add: fresh_cache_def)
  have c: "calls empty_world = []"
    by (simp add: empty_world_def)
  note t = put_ttl_precedence [OF h1 h2, of no_failure 1700000000000 "''q1''" "[]" False _
      empty_world]
  from t [of "Some \<lparr>ex = Some 10, px = Some 5000, exat = None, pxat = None\<rparr>"]
  have 1: "calls (snd (snd (put array_JSON no_failure 1700000000000 fresh_cache ''q1''
                        [JSBool True] [] False
                        (Some \<lparr>ex = Some 10, px = Some 5000, exat = None, pxat = None\<rparr>)
                        empty_world)))
       = [SETEX ''drizzle:q1'' 10 ''[true]'']"
    by (auto simp: k c)
  from t [of "Some \<lparr>ex = None, px = None, exat = Some 1700000020, pxat = None\<rparr>"]
  have 2: "calls (snd (snd (put array_JSON no_failure 1700000000000 fresh_cache ''q1''
                        [JSBool True] [] False
                        (Some \<lparr>ex = None, px = None, exat = Some 1700000020, pxat = None\<rparr>)
                        empty_world)))
       = [SETEX ''drizzle:q1'' 20 ''[true]'']"
    by (auto simp: k c)
  from t [of "Some \<lparr>ex = None, px = None, exat = None, pxat = None\<rparr>"]
  have 3: "calls (snd (snd (put array_JSON no_failure 1700000000000 fresh_cache ''q1''
                        [JSBool True] [] False
                        (Some \<lparr>ex = None, px = None, exat = None, pxat = None\<rparr>)
                        empty_world)))
       = [SETEX ''drizzle:q1'' 300 ''[true]'']"
    by (auto simp: k c d)
  from h1 h2 1 2 3 show ?thesis by simp
qed

subsection \<open>get and put, case by case\<close>

lemma get_cases:
  "get J fails now this key w =
     (case redis this of
        None \<Rightarrow>
          (Inr None,
           w\<lparr>console := console w @ [(get_failed (formatKey this key), TypeError)]\<rparr>)
      | Some client \<Rightarrow>
          if fails (GET (formatKey this key))
          then (Inr None,
                w\<lparr>calls := calls w @ [GET (formatKey this key)],
                  console := console w @ [(get_failed (formatKey this key), RedisError)]\<rparr>)
          else (case live w now (formatKey this key) of
                  None \<Rightarrow> (Inr None, w\<lparr>calls := calls w @ [GET (formatKey this key)]\<rparr>)
                | Some s \<Rightarrow>
                    if s = [] then (Inr None, w\<lparr>calls := calls w @ [GET (formatKey this key)]\<rparr>)
                    else (case parse J s of
                            None \<Rightarrow>
                              (Inr None,
                               w\<lparr>calls := calls w @ [GET (formatKey this key)],
                                 console := console w
                                   @ [(get_failed (formatKey this key), SyntaxError)]\<rparr>)
                          | Some v \<Rightarrow>
                              (Inr (Some v),
                               w\<lparr>calls := calls w @ [GET (formatKey this key)]\<rparr>))))"
  by (simp add: get_def get_try_def redis_get_def Let_def split: option.splits)

lemma put_cases:
  "put J fails now this key response tbls isTag config w =
     (let cacheKey = formatKey this key; ttl = calculateTtl this now config in
      case redis this of
        None \<Rightarrow>
          (Inr (), this, w\<lparr>console := console w @ [(put_failed cacheKey, TypeError)]\<rparr>)
      | Some client \<Rightarrow>
         (case stringify J response of
            None \<Rightarrow>
              (Inr (), this, w\<lparr>console := console w @ [(put_failed cacheKey, TypeError)]\<rparr>)
          | Some payload \<Rightarrow>
              if fails (SETEX cacheKey ttl payload) \<or> ttl \<le> 0
              then (Inr (), this,
                    w\<lparr>calls := calls w @ [SETEX cacheKey ttl payload],
                      console := console w @ [(put_failed cacheKey, RedisError)]\<rparr>)
              else (case fst (track key tbls (usedTablesPerKey this)) of
                      None \<Rightarrow>
                        (Inr (),
                         this\<lparr>usedTablesPerKey := snd (track key tbls (usedTablesPerKey this))\<rparr>,
                         w\<lparr>calls := calls w @ [SETEX cacheKey ttl payload],
                           entries := (entries w)(cacheKey \<mapsto> (now + ttl * 1000, payload))\<rparr>)
                    | Some e \<Rightarrow>
                        (Inr (),
                         this\<lparr>usedTablesPerKey := snd (track key tbls (usedTablesPerKey this))\<rparr>,
                         w\<lparr>calls := calls w @ [SETEX cacheKey ttl payload],
                           entries := (entries w)(cacheKey \<mapsto> (now + ttl * 1000, payload)),
                           console := console w @ [(put_failed cacheKey, e)]\<rparr>))))"
  by (simp add: put_def put_try_def redis_setex_def Let_def split: option.splits prod.splits)

subsection \<open>The loops of put and onMutate\<close>

lemma unlink_all_calls: "calls (snd (unlink_all fails ks w)) = calls w @ map UNLINK ks"
  by (induction ks arbitrary: w) (auto simp: redis_unlink_def Let_def split_beta)

lemma unlink_all_console: "console (snd (unlink_all fails ks w)) = console w"
  by (induction ks arbitrary: w) (auto simp: redis_unlink_def Let_def split_beta)

lemma unlink_all_entries:
  "entries (snd (unlink_all fails ks w)) k
     = (if k \<in> set ks \<and> \<not> fails (UNLINK k) then None else entries w k)"
  by (induction ks arbitrary: w) (auto simp: redis_unlink_def Let_def split_beta)

lemma unlink_all_rejected: "fst (unlink_all fails ks w) = (\<exists>k \<in> set ks. fails (UNLINK k))"
  by (induction ks arbitrary: w) (auto simp: redis_unlink_def Let_def split_beta)

lemma cleanup_apply:
  "cleanup ts used t = (if t \<in> tableName ` set ts then Some [] else used t)"
  by (induction ts arbitrary: used) auto

lemma set_fold_set_add: "set (fold set_add ks acc) = set ks \<union> set acc"
  by (induction ks arbitrary: acc) (auto simp: set_add_def)

lemma trackedKeys_upd [simp]:
  "trackedKeys (used(a \<mapsto> v)) t = (if t = a then v else trackedKeys used t)"
  by (simp add: trackedKeys_def)

lemma trackedKeys_Some: "used t = Some ks \<Longrightarrow> trackedKeys used t = ks"
  by (simp add: trackedKeys_def)

lemma trackedKeys_None: "used t = None \<Longrightarrow> trackedKeys used t = []"
  by (simp add: trackedKeys_def)

lemma collect_set:
  "collect used ts acc = Inr ks \<Longrightarrow>
     set ks = set acc \<union> (\<Union>t \<in> set ts. set (trackedKeys used (tableName t)))"
  by (induction ts arbitrary: acc)
     (auto simp: getProperty_def trackedKeys_def set_fold_set_add
           split: property.splits option.splits if_splits)

lemma collect_Inl_iff:
  "(\<exists>e. collect used ts acc = Inl e) \<longleftrightarrow> (\<exists>t \<in> set ts. getProperty used (tableName t) = Inherited)"
  by (induction ts arbitrary: acc) (auto split: property.splits)

lemma collect_error: "collect used ts acc = Inl e \<Longrightarrow> e = TypeError"
  by (induction ts arbitrary: acc) (auto split: property.splits)

lemma track_keeps:
  "k \<in> set (trackedKeys used t) \<Longrightarrow>
     k \<in> set (trackedKeys (snd (track key tbls used)) t)"
proof (induction tbls arbitrary: used)
  case Nil
  then show ?case by simp
next
  case (Cons a tbls)
  show ?case
  proof (cases "getProperty used a")
    case Undefined
    then have "used a = None"
      by (auto simp: getProperty_def split: option.splits)
    with Cons.prems
    have "k \<in> set (trackedKeys (used(a \<mapsto> [key])) t)"
      by (auto simp: trackedKeys_None)
    then have "k \<in> set (trackedKeys (snd (track key tbls (used(a \<mapsto> [key])))) t)"
      by (rule Cons.IH)
    with Undefined show ?thesis by simp
  next
    case (Array ks)
    then have ua: "used a = Some ks"
      by (auto simp: getProperty_def split: option.splits if_splits)
    show ?thesis
    proof (cases "key \<in> set ks")
      case True
      from Cons.prems have "k \<in> set (trackedKeys (snd (track key tbls used)) t)"
        by (rule Cons.IH)
      with Array True show ?thesis by simp
    next
      case False
      from Cons.prems ua
      have "k \<in> set (trackedKeys (used(a \<mapsto> ks @ [key])) t)"
        by (auto simp: trackedKeys_Some)
      then have "k \<in> set (trackedKeys (snd (track key tbls (used(a \<mapsto> ks @ [key])))) t)"
        by (rule Cons.IH)
      with Array False show ?thesis by simp
    qed
  next
    case Inherited
    with Cons.prems show ?thesis by simp
  qed
qed

lemma track_registers:
  "fst (track key tbls used) = None \<Longrightarrow> t \<in> set tbls \<Longrightarrow>
     key \<in> set (trackedKeys (snd (track key tbls used)) t)"
proof (induction tbls arbitrary: used)
  case Nil
  then show ?case by simp
next
  case (Cons a tbls)
  show ?case
  proof (cases "getProperty used a")
    case Undefined
    let ?u = "used(a \<mapsto> [key])"
    from Cons.prems Undefined have ok: "fst (track key tbls ?u) = None"
      by simp
    have "key \<in> set (trackedKeys (snd (track key tbls ?u)) t)"
    proof (cases "t = a")
      case True
      have "key \<in> set (trackedKeys ?u t)"
        using True by simp
      then show ?thesis by (rule track_keeps)
    next
      case False
      with Cons.prems have "t \<in> set tbls" by simp
      with ok show ?thesis by (rule Cons.IH)
    qed
    with Undefined show ?thesis by simp
  next
    case (Array ks)
    then have ua: "used a = Some ks"
      by (auto simp: getProperty_def split: option.splits if_splits)
    show ?thesis
    proof (cases "key \<in> set ks")
      case kin: True
      from Cons.prems Array kin have ok: "fst (track key tbls used) = None"
        by simp
      have "key \<in> set (trackedKeys (snd (track key tbls used)) t)"
      proof (cases "t = a")
        case True
        have "key \<in> set (trackedKeys used t)"
          using True ua kin by (simp add: trackedKeys_Some)
        then show ?thesis by (rule track_keeps)
      next
        case False
        with Cons.prems have "t \<in> set tbls" by simp
        with ok show ?thesis by (rule Cons.IH)
      qed
      with Array kin show ?thesis by simp
    next
      case knot: False
      let ?u = "used(a \<mapsto> ks @ [key])"
      from Cons.prems Array knot have ok: "fst (track key tbls ?u) = None"
        by simp
      have "key \<in> set (trackedKeys (snd (track key tbls ?u)) t)"
      proof (cases "t = a")
        case True
        have "key \<in> set (trackedKeys ?u t)"
          using True by simp
        then show ?thesis by (rule track_keeps)
      next
        case False
        with Cons.prems have "t \<in> set tbls" by simp
        with ok show ?thesis by (rule Cons.IH)
      qed
      with Array knot show ?thesis by simp
    qed
  next
    case Inherited
    with Cons.prems show ?thesis by simp
  qed
qed

lemma collect_no_inherited:
  "\<forall>t \<in> set ts. getProperty used (tableName t) \<noteq> Inherited \<Longrightarrow> \<exists>ks. collect used ts acc = Inr ks"
  using collect_Inl_iff [of used ts acc] by (cases "collect used ts acc") auto

lemma collect_cleared:
  "\<forall>t \<in> set ts. used (tableName t) = Some [] \<Longrightarrow> collect used ts acc = Inr acc"
  by (induction ts arbitrary: acc) (auto simp: getProperty_def)

lemma collect_empty_iff:
  "collect used ts [] = Inr ks \<Longrightarrow> ks = [] \<longleftrightarrow> (\<forall>t \<in> set ts. trackedKeys used (tableName t) = [])"
  using collect_set [of used ts "[]" ks]
  by (auto simp flip: set_empty)

subsection \<open>onMutate, case by case\<close>

lemma onMutate_cases:
  "onMutate fails this params w =
     (case collect (usedTablesPerKey this) (tablesArray params) [] of
        Inl e \<Rightarrow> (Inl e, this, w)
      | Inr keysToDelete \<Rightarrow>
          if keysToDelete = [] \<and> tagsArray params = [] then (Inr (), this, w)
          else (case redis this of
                  None \<Rightarrow> (Inl TypeError, this, w)
                | Some client \<Rightarrow>
                    (let physical = map (\<lambda>tag. formatKey this (''tag:'' @ tag)) (tagsArray params)
                                    @ map (formatKey this) keysToDelete
                     in ((if fst (unlink_all fails physical w) then Inl RedisError else Inr ()),
                         this\<lparr>usedTablesPerKey :=
                                cleanup (tablesArray params) (usedTablesPerKey this)\<rparr>,
                         snd (unlink_all fails physical w)))))"
  by (simp add: onMutate_def Let_def split_beta split: sum.splits option.splits)

lemma formatKey_inj: "formatKey this k = formatKey this k' \<longleftrightarrow> k = k'"
  by (simp add: formatKey_def)

lemma tablesArray_Many [simp]: "tablesArray \<lparr>tags = g, tables = Many ts\<rparr> = ts"
  by (simp add: tablesArray_def)

lemma tagsArray_Many [simp]: "tagsArray \<lparr>tags = Many gs, tables = ts\<rparr> = gs"
  by (simp add: tagsArray_def)

lemma formatKey_namespace: "namespace this' = namespace this \<Longrightarrow> formatKey this' = formatKey this"
  by (simp add: formatKey_def fun_eq_iff)

lemma put_succeeded:
  assumes "put J fails now this key response tbls isTag config w = (res, this1, w1)"
      and "console w1 = console w"
  shows "\<exists>client payload.
           redis this = Some client \<and> stringify J response = Some payload
         \<and> \<not> fails (SETEX (formatKey this key) (calculateTtl this now config) payload)
         \<and> 0 < calculateTtl this now config
         \<and> fst (track key tbls (usedTablesPerKey this)) = None
         \<and> this1 = this\<lparr>usedTablesPerKey := snd (track key tbls (usedTablesPerKey this))\<rparr>
         \<and> w1 = w\<lparr>calls := calls w @ [SETEX (formatKey this key) (calculateTtl this now config) payload],
                   entries := (entries w)(formatKey this key \<mapsto>
                      (now + calculateTtl this now config * 1000, payload))\<rparr>"
  using assms
  by (auto simp: put_cases Let_def split: option.splits if_splits)

lemma get_absent:
  "entries w (formatKey this key) = None \<Longrightarrow> fst (get J fails now this key w) = Inr None"
  by (simp add: get_cases live_def split: option.splits)

lemma get_result_frame:
  "entries w' (formatKey this key) = entries w (formatKey this key) \<Longrightarrow>
   redis this' = redis this \<Longrightarrow> namespace this' = namespace this \<Longrightarrow>
   fst (get J fails now this' key w') = fst (get J fails now this key w)"
  by (simp add: get_cases live_def formatKey_def split: option.splits)

lemma onMutate_tables_result:
  assumes "tagsArray params = []"
      and "collect (usedTablesPerKey this) (tablesArray params) [] = Inr ks"
      and "ks \<noteq> []" and "redis this = Some client"
  shows "onMutate fails this params w =
           ((if \<exists>k \<in> set ks. fails (UNLINK (formatKey this k)) then Inl RedisError else Inr ()),
            this\<lparr>usedTablesPerKey := cleanup (tablesArray params) (usedTablesPerKey this)\<rparr>,
            snd (unlink_all fails (map (formatKey this) ks) w))"
  using assms by (auto simp: onMutate_cases unlink_all_rejected)

lemma onMutate_frame:
  assumes "onMutate fails this params w = (res, this', w')"
  shows "redis this' = redis this" "namespace this' = namespace this"
        "defaultTtl this' = defaultTtl this"
        "console w' = console w"
        "\<And>t. t \<notin> tableName ` set (tablesArray params)
            \<Longrightarrow> usedTablesPerKey this' t = usedTablesPerKey this t"
  using assms
  by (auto simp: onMutate_cases Let_def cleanup_apply unlink_all_console
           split: sum.splits option.splits if_splits)

lemma onMutate_calls:
  assumes "tagsArray params = []"
      and "onMutate fails this params w = (res, this', w')"
  shows "\<exists>ks. calls w' = calls w @ map (\<lambda>k. UNLINK (formatKey this k)) ks
            \<and> set ks \<subseteq> (\<Union>t \<in> set (tablesArray params). set (tracked this (tableName t)))
            \<and> (\<forall>pk. pk \<notin> formatKey this ` set ks \<longrightarrow> entries w' pk = entries w pk)
            \<and> (collect (usedTablesPerKey this) (tablesArray params) [] = Inr ks
                 \<or> ks = [])"
proof (cases "collect (usedTablesPerKey this) (tablesArray params) []")
  case (Inl e)
  with assms show ?thesis
    by (intro exI [of _ "[]"]) (simp add: onMutate_cases)
next
  case (Inr ks)
  then have sub: "set ks \<subseteq> (\<Union>t \<in> set (tablesArray params). set (tracked this (tableName t)))"
    using collect_set [of "usedTablesPerKey this" "tablesArray params" "[]" ks]
    by (simp add: tracked_def)
  show ?thesis
  proof (cases "ks = [] \<or> redis this = None")
    case True
    with Inr assms have "w' = w"
      by (auto simp: onMutate_cases split: if_splits)
    then show ?thesis
      by (intro exI [of _ "[]"]) simp
  next
    case False
    then obtain client where "ks \<noteq> []" "redis this = Some client"
      by auto
    from onMutate_tables_result [OF assms(1) Inr this, of fails w] assms(2)
    have "w' = snd (unlink_all fails (map (formatKey this) ks) w)"
      by simp
    with sub Inr show ?thesis
      by (intro exI [of _ ks]) (auto simp: unlink_all_calls unlink_all_entries)
  qed
qed

lemma onMutate_deletes_tracked:
  assumes "onMutate fails this \<lparr>tags = Many [], tables = Many ts\<rparr> w = (res, this', w')"
      and "redis this = Some client"
      and "\<forall>t \<in> set ts. getProperty (usedTablesPerKey this) (tableName t) \<noteq> Inherited"
      and "t \<in> set ts" and "k \<in> set (tracked this (tableName t))"
  shows "\<exists>ks. k \<in> set ks \<and> set ks = (\<Union>t \<in> set ts. set (tracked this (tableName t)))
            \<and> calls w' = calls w @ map (\<lambda>k. UNLINK (formatKey this k)) ks
            \<and> (\<forall>pk. entries w' pk = (if pk \<in> formatKey this ` set ks \<and> \<not> fails (UNLINK pk) then None else entries w pk))
            \<and> res = (if \<exists>k \<in> set ks. fails (UNLINK (formatKey this k)) then Inl RedisError else Inr ())
            \<and> this' = this\<lparr>usedTablesPerKey := cleanup ts (usedTablesPerKey this)\<rparr>"
proof -
  from assms(3) obtain ks where c: "collect (usedTablesPerKey this) ts [] = Inr ks"
    using collect_no_inherited by blast
  then have s: "set ks = (\<Union>t \<in> set ts. set (tracked this (tableName t)))"
    using collect_set [of "usedTablesPerKey this" ts "[]" ks] by (simp add: tracked_def)
  with assms(4,5) have kin: "k \<in> set ks" by auto
  then have ne: "ks \<noteq> []" by auto
  have "onMutate fails this \<lparr>tags = Many [], tables = Many ts\<rparr> w =
           ((if \<exists>k \<in> set ks. fails (UNLINK (formatKey this k)) then Inl RedisError else Inr ()),
            this\<lparr>usedTablesPerKey := cleanup ts (usedTablesPerKey this)\<rparr>,
            snd (unlink_all fails (map (formatKey this) ks) w))"
    using onMutate_tables_result [of "\<lparr>tags = Many [], tables = Many ts\<rparr>" this ks client fails w]
      c ne assms(2) by simp
  with assms(1) have
    "res = (if \<exists>k \<in> set ks. fails (UNLINK (formatKey this k)) then Inl RedisError else Inr ())"
    "this' = this\<lparr>usedTablesPerKey := cleanup ts (usedTablesPerKey this)\<rparr>"
    "w' = snd (unlink_all fails (map (formatKey this) ks) w)"
    by simp_all
  with kin s show ?thesis
    by (intro exI [of _ ks]) (auto simp: unlink_all_calls unlink_all_entries)
qed

lemma onMutate_tracked:
  assumes "onMutate fails this params w = (res, this', w')"
  shows "tracked this' t = tracked this t \<or> tracked this' t = []"
  using assms
  by (auto simp: onMutate_cases Let_def cleanup_apply tracked_def trackedKeys_def
           split: sum.splits option.splits if_splits)

subsection \<open>get never raises\<close>

text \<open>
  Claim C4. \<^verbatim>\<open>get\<close> always returns normally. It returns absent, without logging, when the
  store has no live entry under the physical key; absent, with the failure logged, when
  the store read is rejected, when there is no store handle, and when the stored payload
  does not parse (an empty payload is falsy and is treated as no entry: absent, nothing
  parsed and nothing logged). A non-absent result is always the parse of the live
  payload stored under the physical key.
\<close>

theorem get_never_raises:
  "\<exists>res w'. get J fails now this key w = (Inr res, w')
     \<and> (redis this \<noteq> None \<and> \<not> fails (GET (formatKey this key))
          \<and> live w now (formatKey this key) = None
        \<longrightarrow> res = None \<and> console w' = console w)
     \<and> (redis this \<noteq> None \<and> fails (GET (formatKey this key))
        \<longrightarrow> res = None
            \<and> console w' = console w @ [(get_failed (formatKey this key), RedisError)])
     \<and> (\<forall>p. redis this \<noteq> None \<and> \<not> fails (GET (formatKey this key))
              \<and> live w now (formatKey this key) = Some p \<and> parse J p = None
        \<longrightarrow> res = None
            \<and> console w' =
                (if p = [] then console w
                 else console w @ [(get_failed (formatKey this key), SyntaxError)]))
     \<and> (redis this = None
        \<longrightarrow> res = None
            \<and> console w' = console w @ [(get_failed (formatKey this key), TypeError)])
     \<and> (\<forall>v. res = Some v
        \<longrightarrow> (\<exists>p. live w now (formatKey this key) = Some p \<and> parse J p = Some v))"
  by (auto simp: get_cases split: option.splits)

theorem get_never_raises_witness:
  "live corrupt_world 1700000000000 (formatKey fresh_cache ''q1'') = Some ''oops''
   \<and> parse array_JSON ''oops'' = None
   \<and> fst (get array_JSON no_failure 1700000000000 fresh_cache ''q1'' corrupt_world)
       = Inr None
   \<and> console (snd (get array_JSON no_failure 1700000000000 fresh_cache ''q1''
                     corrupt_world))
       = [(get_failed ''drizzle:q1'', SyntaxError)]
   \<and> fst (get array_JSON setex_fails 1700000000000 no_store_cache ''q1'' empty_world)
       = Inr None"
proof -
  have a: "redis fresh_cache \<noteq> None"
    by (simp add: fresh_cache_def)
  have b: "\<not> no_failure (GET (formatKey fresh_cache ''q1''))"
    by (simp add: no_failure_def)
  have c: "live corrupt_world 1700000000000 (formatKey fresh_cache ''q1'') = Some ''oops''"
    by (simp add: live_def corrupt_world_def formatKey_def fresh_cache_def)
  have d: "parse array_JSON ''oops'' = None"
    by code_simp
  have e: "redis no_store_cache = None"
    by (simp add: no_store_cache_def)
  have k: "formatKey fresh_cache ''q1'' = ''drizzle:q1''"
    by (simp add: formatKey_def fresh_cache_def)
  have l: "console corrupt_world = []"
    by (simp add: corrupt_world_def)
  from get_never_raises [of array_JSON no_failure 1700000000000 fresh_cache "''q1''"
      corrupt_world] a b c d k l
  have 1: "fst (get array_JSON no_failure 1700000000000 fresh_cache ''q1'' corrupt_world)
             = Inr None
           \<and> console (snd (get array_JSON no_failure 1700000000000 fresh_cache ''q1''
                             corrupt_world))
             = [(get_failed ''drizzle:q1'', SyntaxError)]"
    by auto
  from get_never_raises [of array_JSON setex_fails 1700000000000 no_store_cache
      "''q1''" empty_world] e
  have 2: "fst (get array_JSON setex_fails 1700000000000 no_store_cache ''q1''
                  empty_world) = Inr None"
    by auto
  from 1 2 c d show ?thesis by simp
qed

subsection \<open>Construction\<close>

text \<open>
  Claim C5, as stated, fails: given a configuration with no store handle the constructor
  raises nothing and returns an instance.
\<close>

theorem constructor_without_store_counterexample:
  "constructor no_store_config = Inr no_store_cache"
  by (simp add: constructor_def no_store_config_def no_store_cache_def)

text \<open>
  Claim C5, amended. The constructor checks nothing and never raises, whatever the
  configuration: it copies the handle and fills in the defaults (TTL 300, namespace
  \<^verbatim>\<open>drizzle\<close>, strategy \<^verbatim>\<open>all\<close>). A missing handle shows at first use: \<^verbatim>\<open>get\<close> catches the
  TypeError, logs it and returns absent, \<^verbatim>\<open>put\<close> catches it, logs it and returns
  normally, and neither sends a command nor changes the tracking.
\<close>

theorem constructor_never_raises:
  "\<exists>this. constructor cfg = Inr this
     \<and> redis this = cfg_redis cfg
     \<and> defaultTtl this = (case cfg_defaultTtl cfg of None \<Rightarrow> 300 | Some d \<Rightarrow> d)
     \<and> namespace this = (case cfg_namespace cfg of None \<Rightarrow> ''drizzle'' | Some n \<Rightarrow> n)
     \<and> strategy this = (case cfg_strategy cfg of None \<Rightarrow> EveryQuery | Some s \<Rightarrow> s)
     \<and> usedTablesPerKey this = Map.empty
     \<and> (cfg_redis cfg = None \<longrightarrow>
          get J fails now this key w
            = (Inr None,
               w\<lparr>console := console w @ [(get_failed (formatKey this key), TypeError)]\<rparr>)
          \<and> put J fails now this key response tbls isTag config w
            = (Inr (), this,
               w\<lparr>console := console w @ [(put_failed (formatKey this key), TypeError)]\<rparr>))"
  by (simp add: constructor_def strategy_def get_cases put_cases)

theorem constructor_never_raises_witness:
  "cfg_redis no_store_config = None
   \<and> constructor no_store_config = Inr no_store_cache
   \<and> get array_JSON no_failure 1700000000000 no_store_cache ''q1'' empty_world
       = (Inr None,
          \<lparr>entries = Map.empty, calls = [],
           console = [(get_failed ''drizzle:q1'', TypeError)]\<rparr>)"
proof -
  have a: "cfg_redis no_store_config = None"
    by (simp add: no_store_config_def)
  have b: "constructor no_store_config = Inr no_store_cache"
    by (simp add: constructor_def no_store_config_def no_store_cache_def)
  from constructor_never_raises [of no_store_config array_JSON no_failure
      1700000000000 "''q1''" empty_world] a b
  have "get array_JSON no_failure 1700000000000 no_store_cache ''q1'' empty_world
          = (Inr None,
             empty_world\<lparr>console := console empty_world
                @ [(get_failed (formatKey no_store_cache ''q1''), TypeError)]\<rparr>)"
    by auto
  then show ?thesis
    using a b by (simp add: empty_world_def formatKey_def no_store_cache_def)
qed

subsection \<open>put never raises\<close>

text \<open>
  Claim C6. \<^verbatim>\<open>put\<close> always returns normally. When the store write fails (the command is
  rejected, or the server refuses a TTL that is not positive) the failure is logged and
  neither the tracking nor the stored entries change. The tracking changes only when the
  store write has succeeded: the entry is then in the store under the physical key.
\<close>

theorem put_never_raises:
  "\<exists>this' w'. put J fails now this key response tbls isTag config w = (Inr (), this', w')
     \<and> (\<forall>payload. redis this \<noteq> None \<and> stringify J response = Some payload
            \<and> (fails (SETEX (formatKey this key) (calculateTtl this now config) payload)
                \<or> calculateTtl this now config \<le> 0)
          \<longrightarrow> this' = this \<and> entries w' = entries w
              \<and> console w' = console w @ [(put_failed (formatKey this key), RedisError)])
     \<and> (usedTablesPerKey this' \<noteq> usedTablesPerKey this
          \<longrightarrow> (\<exists>payload. stringify J response = Some payload
                 \<and> \<not> fails (SETEX (formatKey this key) (calculateTtl this now config) payload)
                 \<and> entries w' (formatKey this key)
                     = Some (now + calculateTtl this now config * 1000, payload)))"
  by (auto simp: put_cases Let_def split: option.splits)

theorem put_never_raises_witness:
  "redis fresh_cache \<noteq> None
   \<and> stringify array_JSON [JSBool True] = Some ''[true]''
   \<and> setex_fails (SETEX (formatKey fresh_cache ''q1'')
                    (calculateTtl fresh_cache 1700000000000 None) ''[true]'')
   \<and> put array_JSON setex_fails 1700000000000 fresh_cache ''q1'' [JSBool True] [''users'']
        False None empty_world
       = (Inr (), fresh_cache,
          \<lparr>entries = Map.empty, calls = [SETEX ''drizzle:q1'' 300 ''[true]''],
           console = [(put_failed ''drizzle:q1'', RedisError)]\<rparr>)"
proof -
  have a: "redis fresh_cache \<noteq> None"
    by (simp add: fresh_cache_def)
  have b: "stringify array_JSON [JSBool True] = Some ''[true]''"
    by code_simp
  have c: "setex_fails (SETEX (formatKey fresh_cache ''q1'')
                          (calculateTtl fresh_cache 1700000000000 None) ''[true]'')"
    by (simp add: setex_fails_def)
  from put_never_raises [of array_JSON setex_fails 1700000000000 fresh_cache "''q1''"
      "[JSBool True]" "[''users'']" False None empty_world] a b c
  obtain this' w' where
    p: "put array_JSON setex_fails 1700000000000 fresh_cache ''q1'' [JSBool True] [''users'']
          False None empty_world = (Inr (), this', w')"
    and q: "this' = fresh_cache" "entries w' = entries empty_world"
      "console w' = console empty_world @ [(put_failed (formatKey fresh_cache ''q1''), RedisError)]"
    by blast
  have r: "calls w' = calls empty_world @ [SETEX (formatKey fresh_cache ''q1'')
             (calculateTtl fresh_cache 1700000000000 None) ''[true]'']"
    using put_calls [of fresh_cache RedisClient array_JSON "[JSBool True]" "''[true]''"
        setex_fails 1700000000000 "''q1''" "[''users'']" False None empty_world] b p
    by (simp add: fresh_cache_def)
  have "w' = \<lparr>entries = Map.empty, calls = [SETEX ''drizzle:q1'' 300 ''[true]''],
              console = [(put_failed ''drizzle:q1'', RedisError)]\<rparr>"
    using q r
    by (cases w') (simp add: empty_world_def formatKey_def fresh_cache_def calculateTtl_def)
  with p q a b c show ?thesis by simp
qed

subsection \<open>Table invalidation\<close>

text \<open>
  Claim C2 fails on the code for a table named like a member of \<^verbatim>\<open>Object.prototype\<close>.
  \<^verbatim>\<open>put("q1", [true], ["constructor"], false, undefined)\<close> writes the entry under the
  physical key \<^verbatim>\<open>drizzle:q1\<close>, the store accepts it and \<^verbatim>\<open>get("q1")\<close> serves it; but
  the tracking loop reads \<^verbatim>\<open>usedTablesPerKey["constructor"]\<close> from the prototype and
  throws, so the key is registered under no table (the \<^verbatim>\<open>catch\<close> logs the TypeError).
  The following \<^verbatim>\<open>onMutate({tags: [], tables: ["constructor"]})\<close> throws a TypeError in
  its first loop: it sends no \<^verbatim>\<open>UNLINK\<close>, the entry stays in the store, and \<^verbatim>\<open>get("q1")\<close>
  still returns the rows.
\<close>

theorem invalidation_misses_inherited_table_name:
  "formatKey fresh_cache ''q1'' = ''drizzle:q1''
   \<and> calls (snd constructor_table_put) = [SETEX ''drizzle:q1'' 300 ''[true]'']
   \<and> entries (snd constructor_table_put) ''drizzle:q1'' = Some (1700000300000, ''[true]'')
   \<and> console (snd constructor_table_put) = [(put_failed ''drizzle:q1'', TypeError)]
   \<and> tracked (fst constructor_table_put) ''constructor'' = []
   \<and> fst (get array_JSON no_failure 1700000001000 (fst constructor_table_put) ''q1''
            (snd constructor_table_put)) = Inr (Some [JSBool True])
   \<and> fst constructor_table_mutated = Inl TypeError
   \<and> calls (snd (snd constructor_table_mutated)) = [SETEX ''drizzle:q1'' 300 ''[true]'']
   \<and> entries (snd (snd constructor_table_mutated)) ''drizzle:q1''
       = Some (1700000300000, ''[true]'')
   \<and> fst (get array_JSON no_failure 1700000002000 (fst (snd constructor_table_mutated)) ''q1''
            (snd (snd constructor_table_mutated))) = Inr (Some [JSBool True])"
  by code_simp

text \<open>
  What the code does for the other tables. After a \<^verbatim>\<open>put(k, r, [t], false, config)\<close> that
  runs its \<^verbatim>\<open>try\<close> block to the end and logs no failure, the entry is in the store under
  the physical key, and a following \<^verbatim>\<open>onMutate({tags: [], tables: [t]})\<close> sends \<^verbatim>\<open>UNLINK\<close>
  for that key; when the store executes the command the entry is gone and every later
  \<^verbatim>\<open>get(k)\<close> returns absent.
\<close>

lemma invalidation_after_clean_put:
  assumes "put J fails now this k r [t] False config w = (res, this1, w1)"
      and "console w1 = console w"
      and "onMutate fails' this1 \<lparr>tags = Many [], tables = Many [TableName t]\<rparr> w1
             = (res', this2, w2)"
  shows "entries w1 (formatKey this k) \<noteq> None
       \<and> UNLINK (formatKey this k) \<in> set (drop (length (calls w1)) (calls w2))
       \<and> (\<not> fails' (UNLINK (formatKey this k))
            \<longrightarrow> entries w2 (formatKey this k) = None
              \<and> fst (get J fails'' now' this2 k w2) = Inr None)"
proof -
  from put_succeeded [OF assms(1,2)] obtain client payload where
    r: "redis this = Some client"
    and tr: "fst (track k [t] (usedTablesPerKey this)) = None"
    and t1: "this1 = this\<lparr>usedTablesPerKey := snd (track k [t] (usedTablesPerKey this))\<rparr>"
    and e1: "entries w1 (formatKey this k) \<noteq> None"
    by auto
  have fk: "formatKey this1 = formatKey this"
    by (rule formatKey_namespace) (simp add: t1)
  from tr have reg: "k \<in> set (tracked this1 t)"
    using track_registers [of k "[t]" "usedTablesPerKey this" t] by (simp add: t1 tracked_def)
  then have own: "getProperty (usedTablesPerKey this1) t \<noteq> Inherited"
    by (auto simp: tracked_def trackedKeys_def getProperty_def split: option.splits)
  have r1: "redis this1 = Some client"
    using r by (simp add: t1)
  have own': "\<forall>x \<in> set [TableName t].
      getProperty (usedTablesPerKey this1) (tableName x) \<noteq> Inherited"
    using own by simp
  have mem: "TableName t \<in> set [TableName t]" by simp
  have reg': "k \<in> set (tracked this1 (tableName (TableName t)))"
    using reg by simp
  from onMutate_deletes_tracked [OF assms(3) r1 own' mem reg']
  obtain ks where kin: "k \<in> set ks"
    and cs1: "calls w2 = calls w1 @ map (\<lambda>k. UNLINK (formatKey this1 k)) ks"
    and es1: "\<forall>pk. entries w2 pk =
                (if pk \<in> formatKey this1 ` set ks \<and> \<not> fails' (UNLINK pk)
                 then None else entries w1 pk)"
    and t2: "this2 = this1\<lparr>usedTablesPerKey :=
                cleanup [TableName t] (usedTablesPerKey this1)\<rparr>"
    by blast
  from cs1 have cs: "calls w2 = calls w1 @ map (\<lambda>k. UNLINK (formatKey this k)) ks"
    unfolding fk .
  from es1 have es: "\<forall>pk. entries w2 pk =
                (if pk \<in> formatKey this ` set ks \<and> \<not> fails' (UNLINK pk)
                 then None else entries w1 pk)"
    unfolding fk .
  have fk2: "formatKey this2 = formatKey this"
    by (rule formatKey_namespace) (simp add: t2 t1)
  have gone: "entries w2 (formatKey this k) = None" if "\<not> fails' (UNLINK (formatKey this k))"
    using that es kin by auto
  have "fst (get J fails'' now' this2 k w2) = Inr None"
    if "\<not> fails' (UNLINK (formatKey this k))"
    using gone [OF that] get_absent [of w2 this2 k J fails'' now'] by (simp add: fk2)
  with gone e1 cs kin show ?thesis by auto
qed


lemma invalidation_after_clean_put_example:
  "console (snd q1_users) = console empty_world
   \<and> \<not> no_failure (UNLINK (formatKey fresh_cache ''q1''))
   \<and> entries (snd users_invalidated) (formatKey fresh_cache ''q1'') = None
   \<and> fst (get array_JSON no_failure 1700000002000 (fst users_invalidated) ''q1''
            (snd users_invalidated)) = Inr None"
proof -
  have p: "put array_JSON no_failure 1700000000000 fresh_cache ''q1'' [JSBool True] [''users'']
             False None empty_world
           = (fst (put array_JSON no_failure 1700000000000 fresh_cache ''q1'' [JSBool True]
                     [''users''] False None empty_world),
              fst q1_users, snd q1_users)"
    unfolding q1_users_def by (rule prod.collapse [symmetric, THEN trans]) simp
  have c: "console (snd q1_users) = console empty_world"
    by code_simp
  have m: "onMutate no_failure (fst q1_users)
             \<lparr>tags = Many [], tables = Many [TableName ''users'']\<rparr> (snd q1_users)
           = (fst (onMutate no_failure (fst q1_users)
                     \<lparr>tags = Many [], tables = Many [TableName ''users'']\<rparr> (snd q1_users)),
              fst users_invalidated, snd users_invalidated)"
    unfolding users_invalidated_def by (rule prod.collapse [symmetric, THEN trans]) simp
  have f: "\<not> no_failure (UNLINK (formatKey fresh_cache ''q1''))"
    by (simp add: no_failure_def)
  from invalidation_after_clean_put [OF p c m, of no_failure 1700000002000] f c
  show ?thesis by blast
qed

text \<open>
  So it is for every table whose name is not read from \<^verbatim>\<open>Object.prototype\<close>, when the
  store accepts the write: the physical key is \<^verbatim>\<open>namespace + ":" + k\<close>, \<^verbatim>\<open>put\<close> stores the
  payload under it, and \<^verbatim>\<open>onMutate\<close> on the table deletes it.
\<close>

lemma put_accepted:
  assumes "redis this = Some client" and "stringify J response = Some payload"
      and "\<not> fails (SETEX (formatKey this key) (calculateTtl this now config) payload)"
      and "0 < calculateTtl this now config"
      and "fst (track key tbls (usedTablesPerKey this)) = None"
  shows "put J fails now this key response tbls isTag config w =
           (Inr (),
            this\<lparr>usedTablesPerKey := snd (track key tbls (usedTablesPerKey this))\<rparr>,
            w\<lparr>calls := calls w
                   @ [SETEX (formatKey this key) (calculateTtl this now config) payload],
              entries := (entries w)(formatKey this key \<mapsto>
                 (now + calculateTtl this now config * 1000, payload))\<rparr>)"
  using assms by (simp add: put_cases Let_def)

lemma track_one_table:
  "getProperty used t \<noteq> Inherited \<Longrightarrow> fst (track key [t] used) = None"
  by (cases "getProperty used t") simp_all

lemma invalidation_of_registered_table:
  assumes "redis this = Some client" and "stringify J r = Some payload"
      and "\<not> fails (SETEX (formatKey this k) (calculateTtl this now config) payload)"
      and "0 < calculateTtl this now config"
      and "getProperty (usedTablesPerKey this) t \<noteq> Inherited"
      and "put J fails now this k r [t] False config w = (res, this1, w1)"
      and "onMutate fails' this1 \<lparr>tags = Many [], tables = Many [TableName t]\<rparr> w1
             = (res', this2, w2)"
  shows "formatKey this k = namespace this @ '':'' @ k
       \<and> entries w1 (formatKey this k)
           = Some (now + calculateTtl this now config * 1000, payload)
       \<and> calls w1 = calls w
             @ [SETEX (formatKey this k) (calculateTtl this now config) payload]
       \<and> UNLINK (formatKey this k) \<in> set (drop (length (calls w1)) (calls w2))
       \<and> (\<not> fails' (UNLINK (formatKey this k))
            \<longrightarrow> entries w2 (formatKey this k) = None
              \<and> fst (get J fails'' now' this2 k w2) = Inr None)"
proof -
  have tr: "fst (track k [t] (usedTablesPerKey this)) = None"
    using assms(5) by (rule track_one_table)
  note acc = put_accepted [where fails = fails and w = w and isTag = False, OF assms(1-4) tr]
  with assms(6) have w1: "w1 = w\<lparr>calls := calls w
                   @ [SETEX (formatKey this k) (calculateTtl this now config) payload],
              entries := (entries w)(formatKey this k \<mapsto>
                 (now + calculateTtl this now config * 1000, payload))\<rparr>"
    by simp
  then have c: "console w1 = console w"
    and e: "entries w1 (formatKey this k)
              = Some (now + calculateTtl this now config * 1000, payload)"
    and cs: "calls w1 = calls w
               @ [SETEX (formatKey this k) (calculateTtl this now config) payload]"
    by simp_all
  have fk: "formatKey this k = namespace this @ '':'' @ k"
    by (simp add: formatKey_def)
  from invalidation_after_clean_put [OF assms(6) c assms(7), where fails'' = fails'' and now' = now'] e cs fk
  show ?thesis by blast
qed

text \<open>
  Claim C3. Invalidation is scoped. Let \<^verbatim>\<open>k1\<close> be registered under none of the tables
  that \<^verbatim>\<open>onMutate({tags: [], tables: ts})\<close> lists (as when \<^verbatim>\<open>k1\<close> and \<^verbatim>\<open>k2\<close> are registered
  under disjoint table sets and \<^verbatim>\<open>ts\<close> are tables of \<^verbatim>\<open>k2\<close>). Then the call sends no
  \<^verbatim>\<open>UNLINK\<close> for \<^verbatim>\<open>k1\<close> and leaves its store entry as it was, the tables under which \<^verbatim>\<open>k1\<close>
  is registered are the same before and after, the tracked keys of every table not
  listed are unchanged, and \<^verbatim>\<open>get(k1)\<close> returns what it returned before. When the call
  returns normally and \<^verbatim>\<open>k2\<close> is registered under a listed table, the store entry of
  \<^verbatim>\<open>k2\<close> is gone and \<^verbatim>\<open>get(k2)\<close> returns absent.
\<close>

theorem invalidation_scoped:
  assumes "onMutate fails this \<lparr>tags = Many [], tables = Many ts\<rparr> w = (res, this', w')"
      and "\<forall>t \<in> set ts. k1 \<notin> set (tracked this (tableName t))"
  shows "entries w' (formatKey this k1) = entries w (formatKey this k1)
       \<and> UNLINK (formatKey this k1) \<notin> set (drop (length (calls w)) (calls w'))
       \<and> (\<forall>t. (k1 \<in> set (tracked this' t)) = (k1 \<in> set (tracked this t)))
       \<and> (\<forall>t. t \<notin> tableName ` set ts \<longrightarrow> tracked this' t = tracked this t)
       \<and> fst (get J fails' now this' k1 w') = fst (get J fails' now this k1 w)
       \<and> (res = Inr () \<and> (\<exists>t \<in> set ts. k2 \<in> set (tracked this (tableName t)))
            \<longrightarrow> entries w' (formatKey this k2) = None
              \<and> fst (get J fails' now this' k2 w') = Inr None)"
proof -
  let ?p = "\<lparr>tags = Many [], tables = Many ts\<rparr>"
  have tg: "tagsArray ?p = []" by simp
  from onMutate_calls [OF tg assms(1)] obtain ks where
    cs: "calls w' = calls w @ map (\<lambda>k. UNLINK (formatKey this k)) ks"
    and sub: "set ks \<subseteq> (\<Union>t \<in> set ts. set (tracked this (tableName t)))"
    and es: "\<forall>pk. pk \<notin> formatKey this ` set ks \<longrightarrow> entries w' pk = entries w pk"
    by auto
  from sub assms(2) have k1: "k1 \<notin> set ks" by auto
  then have pk1: "formatKey this k1 \<notin> formatKey this ` set ks"
    by (auto simp: formatKey_inj)
  with es have e1: "entries w' (formatKey this k1) = entries w (formatKey this k1)"
    by simp
  from cs pk1 have c1: "UNLINK (formatKey this k1) \<notin> set (drop (length (calls w)) (calls w'))"
    by auto
  note fr = onMutate_frame [OF assms(1)]
  have tr: "\<forall>t. t \<notin> tableName ` set ts \<longrightarrow> tracked this' t = tracked this t"
    using fr(5) by (simp add: tracked_def trackedKeys_def)
  have reg: "(k1 \<in> set (tracked this' t)) = (k1 \<in> set (tracked this t))" for t
  proof (cases "t \<in> tableName ` set ts")
    case True
    with assms(2) have "k1 \<notin> set (tracked this t)" by auto
    with onMutate_tracked [OF assms(1), of t] show ?thesis by auto
  next
    case False
    with tr show ?thesis by simp
  qed
  have g1: "fst (get J fails' now this' k1 w') = fst (get J fails' now this k1 w)"
    using e1 fr(1,2) by (rule get_result_frame)
  have fk: "formatKey this' = formatKey this"
    using fr(2) by (rule formatKey_namespace)
  have k2part: "entries w' (formatKey this k2) = None
                \<and> fst (get J fails' now this' k2 w') = Inr None"
    if ok: "res = Inr ()" and r2: "\<exists>t \<in> set ts. k2 \<in> set (tracked this (tableName t))"
  proof (cases "collect (usedTablesPerKey this) ts []")
    case (Inl e)
    with assms(1) ok show ?thesis
      by (simp add: onMutate_cases)
  next
    case (Inr kd)
    from r2 have k2in: "k2 \<in> set kd"
      using collect_set [OF Inr] by (auto simp: tracked_def)
    then have ne: "kd \<noteq> []" by auto
    from assms(1) ok Inr ne obtain client where r: "redis this = Some client"
      by (cases "redis this") (auto simp: onMutate_cases)
    have c: "collect (usedTablesPerKey this) (tablesArray ?p) [] = Inr kd"
      using Inr by simp
    from onMutate_tables_result [OF tg c ne r, of fails w] assms(1) ok
    have nofail: "\<not> (\<exists>k \<in> set kd. fails (UNLINK (formatKey this k)))"
      and w': "w' = snd (unlink_all fails (map (formatKey this) kd) w)"
      by (auto split: if_splits)
    from nofail k2in have gone: "entries w' (formatKey this k2) = None"
      by (auto simp: w' unlink_all_entries)
    have "fst (get J fails' now this' k2 w') = Inr None"
      using gone get_absent [of w' this' k2 J fails' now] by (simp add: fk)
    with gone show ?thesis by simp
  qed
  from e1 c1 reg tr g1 k2part show ?thesis by blast
qed

theorem invalidation_scoped_witness:
  "''q1'' \<notin> set (tracked (fst q2_posts) ''posts'')
   \<and> fst (onMutate no_failure (fst q2_posts)
            \<lparr>tags = Many [], tables = Many [TableName ''posts'']\<rparr> (snd q2_posts)) = Inr ()
   \<and> ''q2'' \<in> set (tracked (fst q2_posts) ''posts'')
   \<and> fst (get array_JSON no_failure 1700000002000 (fst posts_invalidated) ''q1''
            (snd posts_invalidated)) = Inr (Some [JSBool True])
   \<and> fst (get array_JSON no_failure 1700000002000 (fst posts_invalidated) ''q2''
            (snd posts_invalidated)) = Inr None
   \<and> tracked (fst posts_invalidated) ''users'' = [''q1'']"
proof -
  have a: "\<forall>t \<in> set [TableName ''posts'']. ''q1'' \<notin> set (tracked (fst q2_posts) (tableName t))"
    by code_simp
  have b: "fst (onMutate no_failure (fst q2_posts)
            \<lparr>tags = Many [], tables = Many [TableName ''posts'']\<rparr> (snd q2_posts)) = Inr ()"
    by code_simp
  have c: "''q2'' \<in> set (tracked (fst q2_posts) ''posts'')"
    by code_simp
  have d: "fst (get array_JSON no_failure 1700000002000 (fst q2_posts) ''q1''
                  (snd q2_posts)) = Inr (Some [JSBool True])"
    by code_simp
  have e: "tracked (fst q2_posts) ''users'' = [''q1'']"
    by code_simp
  have f: "''users'' \<notin> tableName ` set [TableName ''posts'']"
    by simp
  have m: "onMutate no_failure (fst q2_posts)
             \<lparr>tags = Many [], tables = Many [TableName ''posts'']\<rparr> (snd q2_posts)
           = (Inr (), fst posts_invalidated, snd posts_invalidated)"
    unfolding posts_invalidated_def b [symmetric]
    by (rule prod.collapse [symmetric, THEN trans]) simp
  from invalidation_scoped [OF m a, of array_JSON no_failure 1700000002000 "''q2''"]
  have "fst (get array_JSON no_failure 1700000002000 (fst posts_invalidated) ''q1''
               (snd posts_invalidated))
          = fst (get array_JSON no_failure 1700000002000 (fst q2_posts) ''q1''
                   (snd q2_posts))"
    and "fst (get array_JSON no_failure 1700000002000 (fst posts_invalidated) ''q2''
               (snd posts_invalidated)) = Inr None"
    and "tracked (fst posts_invalidated) ''users'' = tracked (fst q2_posts) ''users''"
    using c f by auto
  moreover have "''q1'' \<notin> set (tracked (fst q2_posts) ''posts'')"
    using a by simp
  ultimately show ?thesis
    using b c d e by simp
qed

subsection \<open>Idempotence and the no-op branch of onMutate\<close>

text \<open>
  Claim C7. Let \<^verbatim>\<open>onMutate\<close>, called with no tags, return normally. Then every table it
  listed has an empty tracked key set (also a table that had none before), and the same
  call made again, with no \<^verbatim>\<open>put\<close> in between, computes an empty deletion set, returns
  normally, sends nothing to the store and changes nothing.
\<close>

theorem onMutate_idempotent:
  assumes "tagsArray params = []"
      and "onMutate fails this params w = (Inr (), this', w')"
  shows "(\<forall>t \<in> set (tablesArray params). tracked this' (tableName t) = [])
       \<and> collect (usedTablesPerKey this') (tablesArray params) [] = Inr []
       \<and> onMutate fails' this' params w' = (Inr (), this', w')"
proof (cases "collect (usedTablesPerKey this) (tablesArray params) []")
  case (Inl e)
  with assms(2) show ?thesis
    by (simp add: onMutate_cases)
next
  case (Inr ks)
  show ?thesis
  proof (cases "ks = []")
    case True
    with Inr assms have same: "this' = this" "w' = w"
      by (simp_all add: onMutate_cases)
    from Inr True
    have "\<forall>t \<in> set (tablesArray params). trackedKeys (usedTablesPerKey this) (tableName t) = []"
      using collect_empty_iff [of "usedTablesPerKey this" "tablesArray params" ks] by blast
    with same Inr True assms(1) show ?thesis
      by (simp add: tracked_def onMutate_cases)
  next
    case False
    with Inr assms obtain client where
      r: "redis this = Some client"
      and t': "this' = this\<lparr>usedTablesPerKey :=
                 cleanup (tablesArray params) (usedTablesPerKey this)\<rparr>"
      by (auto simp: onMutate_cases Let_def split: option.splits if_splits)
    have cleared: "\<forall>t \<in> set (tablesArray params). usedTablesPerKey this' (tableName t) = Some []"
      by (simp add: t' cleanup_apply)
    then have c: "collect (usedTablesPerKey this') (tablesArray params) [] = Inr []"
      by (rule collect_cleared)
    from cleared have "\<forall>t \<in> set (tablesArray params). tracked this' (tableName t) = []"
      by (simp add: tracked_def trackedKeys_def)
    with c assms(1) show ?thesis
      by (simp add: onMutate_cases)
  qed
qed

theorem onMutate_idempotent_witness:
  "tagsArray \<lparr>tags = Many [], tables = Many [TableName ''users'']\<rparr> = []
   \<and> fst (onMutate no_failure (fst q1_users)
            \<lparr>tags = Many [], tables = Many [TableName ''users'']\<rparr> (snd q1_users)) = Inr ()
   \<and> tracked (fst q1_users) ''users'' = [''q1'']
   \<and> tracked (fst users_invalidated) ''users'' = []
   \<and> onMutate no_failure (fst users_invalidated)
         \<lparr>tags = Many [], tables = Many [TableName ''users'']\<rparr> (snd users_invalidated)
       = (Inr (), fst users_invalidated, snd users_invalidated)"
proof -
  have a: "tagsArray \<lparr>tags = Many [], tables = Many [TableName ''users'']\<rparr> = []"
    by simp
  have b: "fst (onMutate no_failure (fst q1_users)
            \<lparr>tags = Many [], tables = Many [TableName ''users'']\<rparr> (snd q1_users)) = Inr ()"
    by code_simp
  have c: "tracked (fst q1_users) ''users'' = [''q1'']"
    by code_simp
  have m: "onMutate no_failure (fst q1_users)
             \<lparr>tags = Many [], tables = Many [TableName ''users'']\<rparr> (snd q1_users)
           = (Inr (), fst users_invalidated, snd users_invalidated)"
    unfolding users_invalidated_def b [symmetric]
    by (rule prod.collapse [symmetric, THEN trans]) simp
  from onMutate_idempotent [OF a m, of no_failure]
  have "tracked (fst users_invalidated) ''users'' = []"
    and "onMutate no_failure (fst users_invalidated)
           \<lparr>tags = Many [], tables = Many [TableName ''users'']\<rparr> (snd users_invalidated)
         = (Inr (), fst users_invalidated, snd users_invalidated)"
    by simp_all
  with a b c show ?thesis by simp
qed

text \<open>
  Claim C9. When there are no tags and every listed table has an empty tracked key set
  (in particular when no table is listed), \<^verbatim>\<open>onMutate\<close> sends no command: the store, the
  list of commands sent, the console and the tracking are what they were. The call
  returns normally, except that it throws a TypeError when a listed name is read from
  \<^verbatim>\<open>Object.prototype\<close>.
\<close>

theorem onMutate_noop:
  assumes "tagsArray params = []"
      and "\<forall>t \<in> set (tablesArray params). tracked this (tableName t) = []"
  shows "snd (onMutate fails this params w) = (this, w)
       \<and> fst (onMutate fails this params w)
           = (if \<exists>t \<in> set (tablesArray params).
                   getProperty (usedTablesPerKey this) (tableName t) = Inherited
              then Inl TypeError else Inr ())"
proof (cases "collect (usedTablesPerKey this) (tablesArray params) []")
  case (Inl e)
  then have "e = TypeError"
    by (rule collect_error)
  moreover from Inl
  have "\<exists>t \<in> set (tablesArray params).
           getProperty (usedTablesPerKey this) (tableName t) = Inherited"
    using collect_Inl_iff [of "usedTablesPerKey this" "tablesArray params" "[]"] by blast
  ultimately show ?thesis
    using Inl by (simp add: onMutate_cases)
next
  case (Inr ks)
  from assms(2) have "\<forall>t \<in> set (tablesArray params).
      trackedKeys (usedTablesPerKey this) (tableName t) = []"
    by (simp add: tracked_def)
  with Inr have "ks = []"
    by (simp add: collect_empty_iff)
  moreover from Inr
  have "\<not> (\<exists>t \<in> set (tablesArray params).
           getProperty (usedTablesPerKey this) (tableName t) = Inherited)"
    using collect_Inl_iff [of "usedTablesPerKey this" "tablesArray params" "[]"] by auto
  ultimately show ?thesis
    using Inr assms(1) by (simp add: onMutate_cases)
qed

theorem onMutate_noop_witness:
  "tagsArray \<lparr>tags = Many [], tables = Many []\<rparr> = []
   \<and> onMutate no_failure (fst q1_users) \<lparr>tags = Many [], tables = Many []\<rparr> (snd q1_users)
       = (Inr (), fst q1_users, snd q1_users)
   \<and> tracked (fst q1_users) ''posts'' = []
   \<and> onMutate no_failure (fst q1_users)
         \<lparr>tags = One [], tables = One (TableName ''posts'')\<rparr> (snd q1_users)
       = (Inr (), fst q1_users, snd q1_users)"
proof -
  let ?none = "\<lparr>tags = Many [], tables = Many []\<rparr>"
  let ?posts = "\<lparr>tags = One [], tables = One (TableName ''posts'')\<rparr>"
  have a: "tagsArray ?none = []"
    by simp
  have b: "\<forall>t \<in> set (tablesArray ?none). tracked (fst q1_users) (tableName t) = []"
    by simp
  have a': "tagsArray ?posts = []"
    by (simp add: tagsArray_def)
  have c: "tracked (fst q1_users) ''posts'' = []"
    by code_simp
  have ts: "tablesArray ?posts = [TableName ''posts'']"
    by (simp add: tablesArray_def)
  have b': "\<forall>t \<in> set (tablesArray ?posts). tracked (fst q1_users) (tableName t) = []"
    using c by (simp add: ts)
  have i: "\<not> (\<exists>t \<in> set (tablesArray ?posts).
               getProperty (usedTablesPerKey (fst q1_users)) (tableName t) = Inherited)"
    unfolding ts by code_simp
  from onMutate_noop [OF a b, of no_failure "snd q1_users"]
  have 1: "onMutate no_failure (fst q1_users) ?none (snd q1_users)
           = (Inr (), fst q1_users, snd q1_users)"
    by (simp add: prod_eq_iff)
  from onMutate_noop [OF a' b', of no_failure "snd q1_users"] i
  have 2: "onMutate no_failure (fst q1_users) ?posts (snd q1_users)
           = (Inr (), fst q1_users, snd q1_users)"
    by (simp add: prod_eq_iff)
  from a 1 c 2 show ?thesis by simp
qed

text \<open>
  Claim C10. \<^verbatim>\<open>onMutate\<close> changes the tracked key set of the listed tables only. For a
  key registered under two tables \<^verbatim>\<open>A\<close> and \<^verbatim>\<open>B\<close>, \<^verbatim>\<open>onMutate\<close> on \<^verbatim>\<open>A\<close> empties the tracked
  set of \<^verbatim>\<open>A\<close>, leaves every other tracked set as it was (the key stays registered under
  \<^verbatim>\<open>B\<close>) and, when the store executes the command, removes the key's entry. A later
  \<^verbatim>\<open>onMutate\<close> on \<^verbatim>\<open>B\<close> sends \<^verbatim>\<open>UNLINK\<close> for the key again; the entry stays absent, the call
  returns normally when the store rejects none of its commands, and \<^verbatim>\<open>B\<close> is emptied.
\<close>

theorem onMutate_only_listed_tables:
  assumes "redis this = Some client" and "A \<noteq> B"
      and "k \<in> set (tracked this A)" and "k \<in> set (tracked this B)"
      and "onMutate fails this \<lparr>tags = Many [], tables = Many [TableName A]\<rparr> w = (r1, this1, w1)"
      and "onMutate fails' this1 \<lparr>tags = Many [], tables = Many [TableName B]\<rparr> w1 = (r2, this2, w2)"
  shows "tracked this1 A = []
       \<and> (\<forall>t. t \<noteq> A \<longrightarrow> tracked this1 t = tracked this t)
       \<and> k \<in> set (tracked this1 B)
       \<and> (\<not> fails (UNLINK (formatKey this k)) \<longrightarrow> entries w1 (formatKey this k) = None)
       \<and> UNLINK (formatKey this k) \<in> set (drop (length (calls w1)) (calls w2))
       \<and> (entries w1 (formatKey this k) = None \<longrightarrow> entries w2 (formatKey this k) = None)
       \<and> (\<not> (\<exists>k' \<in> set (tracked this B). fails' (UNLINK (formatKey this k'))) \<longrightarrow> r2 = Inr ())
       \<and> tracked this2 B = []"
proof -
  have ownA: "\<forall>x \<in> set [TableName A]. getProperty (usedTablesPerKey this) (tableName x) \<noteq> Inherited"
    using assms(3) by (auto simp: tracked_def trackedKeys_def getProperty_def split: option.splits)
  have memA: "TableName A \<in> set [TableName A]" by simp
  have regA: "k \<in> set (tracked this (tableName (TableName A)))" using assms(3) by simp
  from onMutate_deletes_tracked [OF assms(5) assms(1) ownA memA regA]
  obtain ks where kin: "k \<in> set ks"
    and es: "\<forall>pk. entries w1 pk = (if pk \<in> formatKey this ` set ks \<and> \<not> fails (UNLINK pk)
                                    then None else entries w pk)"
    and t1: "this1 = this\<lparr>usedTablesPerKey := cleanup [TableName A] (usedTablesPerKey this)\<rparr>"
    by blast
  have a: "tracked this1 A = []"
    by (simp add: t1 tracked_def trackedKeys_def)
  have b0: "\<forall>t. t \<noteq> A \<longrightarrow> tracked this1 t = tracked this t"
    by (simp add: t1 tracked_def trackedKeys_def)
  with assms(2) have b: "tracked this1 B = tracked this B"
    by simp
  with assms(4) have b1: "k \<in> set (tracked this1 B)"
    by simp
  have c: "\<not> fails (UNLINK (formatKey this k)) \<longrightarrow> entries w1 (formatKey this k) = None"
    using es kin by auto
  have fk: "formatKey this1 = formatKey this"
    by (rule formatKey_namespace) (simp add: t1)
  have r1: "redis this1 = Some client" using assms(1) by (simp add: t1)
  have ownB: "\<forall>x \<in> set [TableName B]. getProperty (usedTablesPerKey this1) (tableName x) \<noteq> Inherited"
    using assms(4) b by (auto simp: tracked_def trackedKeys_def getProperty_def split: option.splits)
  have memB: "TableName B \<in> set [TableName B]" by simp
  have regB: "k \<in> set (tracked this1 (tableName (TableName B)))" using assms(4) b by simp
  from onMutate_deletes_tracked [OF assms(6) r1 ownB memB regB]
  obtain ks' where kin': "k \<in> set ks'"
    and s': "set ks' = (\<Union>t \<in> set [TableName B]. set (tracked this1 (tableName t)))"
    and cs1: "calls w2 = calls w1 @ map (\<lambda>k. UNLINK (formatKey this1 k)) ks'"
    and es1: "\<forall>pk. entries w2 pk = (if pk \<in> formatKey this1 ` set ks' \<and> \<not> fails' (UNLINK pk)
                                    then None else entries w1 pk)"
    and res2: "r2 = (if \<exists>k \<in> set ks'. fails' (UNLINK (formatKey this1 k)) then Inl RedisError else Inr ())"
    and t2: "this2 = this1\<lparr>usedTablesPerKey := cleanup [TableName B] (usedTablesPerKey this1)\<rparr>"
    by blast
  from cs1 have cs: "calls w2 = calls w1 @ map (\<lambda>k. UNLINK (formatKey this k)) ks'"
    unfolding fk .
  from res2 have res2': "r2 = (if \<exists>k \<in> set ks'. fails' (UNLINK (formatKey this k)) then Inl RedisError else Inr ())"
    unfolding fk .
  have d: "UNLINK (formatKey this k) \<in> set (drop (length (calls w1)) (calls w2))"
    using cs kin' by auto
  have e: "entries w1 (formatKey this k) = None \<longrightarrow> entries w2 (formatKey this k) = None"
    using es1 by auto
  have sB: "set ks' = set (tracked this B)"
    using s' b by simp
  have f: "\<not> (\<exists>k' \<in> set (tracked this B). fails' (UNLINK (formatKey this k'))) \<longrightarrow> r2 = Inr ()"
    using res2' sB by auto
  have g: "tracked this2 B = []"
    by (simp add: t2 tracked_def trackedKeys_def)
  from a b0 b1 c d e f g show ?thesis by blast
qed

theorem onMutate_only_listed_tables_witness:
  "redis (fst q1_users_posts) = Some RedisClient
   \<and> ''users'' \<noteq> ''posts''
   \<and> ''q1'' \<in> set (tracked (fst q1_users_posts) ''users'')
   \<and> ''q1'' \<in> set (tracked (fst q1_users_posts) ''posts'')
   \<and> \<not> no_failure (UNLINK (formatKey (fst q1_users_posts) ''q1''))
   \<and> tracked (fst users_mutated) ''users'' = []
   \<and> ''q1'' \<in> set (tracked (fst users_mutated) ''posts'')
   \<and> entries (snd users_mutated) (formatKey (fst q1_users_posts) ''q1'') = None
   \<and> UNLINK (formatKey (fst q1_users_posts) ''q1'')
         \<in> set (drop (length (calls (snd users_mutated))) (calls (snd posts_mutated)))
   \<and> entries (snd posts_mutated) (formatKey (fst q1_users_posts) ''q1'') = None
   \<and> tracked (fst posts_mutated) ''posts'' = []"
proof -
  have a: "redis (fst q1_users_posts) = Some RedisClient"
    by code_simp
  have b: "''users'' \<noteq> ''posts''"
    by simp
  have c: "''q1'' \<in> set (tracked (fst q1_users_posts) ''users'')"
    by code_simp
  have d: "''q1'' \<in> set (tracked (fst q1_users_posts) ''posts'')"
    by code_simp
  have f: "\<not> no_failure (UNLINK (formatKey (fst q1_users_posts) ''q1''))"
    by (simp add: no_failure_def)
  have m1: "onMutate no_failure (fst q1_users_posts)
              \<lparr>tags = Many [], tables = Many [TableName ''users'']\<rparr> (snd q1_users_posts)
            = (fst (onMutate no_failure (fst q1_users_posts)
                      \<lparr>tags = Many [], tables = Many [TableName ''users'']\<rparr>
                      (snd q1_users_posts)),
               fst users_mutated, snd users_mutated)"
    unfolding users_mutated_def by (rule prod.collapse [symmetric, THEN trans]) simp
  have m2: "onMutate no_failure (fst users_mutated)
              \<lparr>tags = Many [], tables = Many [TableName ''posts'']\<rparr> (snd users_mutated)
            = (fst (onMutate no_failure (fst users_mutated)
                      \<lparr>tags = Many [], tables = Many [TableName ''posts'']\<rparr>
                      (snd users_mutated)),
               fst posts_mutated, snd posts_mutated)"
    unfolding posts_mutated_def by (rule prod.collapse [symmetric, THEN trans]) simp
  from onMutate_only_listed_tables [OF a b c d m1 m2] a b c d f
  show ?thesis by blast
qed

subsection \<open>Round trip\<close>

text \<open>On the fragment, an array without \<^verbatim>\<open>NaN\<close> is what \<^verbatim>\<open>JSON.parse\<close> reads back.\<close>

lemma parse_value_stringify:
  "v \<noteq> JSNaN \<Longrightarrow> parse_value (stringify_value v @ r) = Some (v, r)"
  by (cases v rule: stringify_value.cases) (simp_all add: parse_value_def)

lemma stringify_elements_nonempty: "vs \<noteq> [] \<Longrightarrow> stringify_elements vs \<noteq> []"
  by (induction vs rule: stringify_elements.induct)
     (auto elim: stringify_value.elims)

lemma parse_elements_stringify:
  "vs \<noteq> [] \<Longrightarrow> JSNaN \<notin> set vs \<Longrightarrow>
     parse_elements (stringify_elements vs @ '']'') = Some vs"
proof (induction vs rule: stringify_elements.induct)
  case 1
  then show ?case by simp
next
  case (2 v)
  then have "v \<noteq> JSNaN" by auto
  then have "parse_value (stringify_elements [v] @ '']'') = Some (v, '']'')"
    by (simp add: parse_value_stringify)
  then show ?case
    by (subst parse_elements.simps) simp
next
  case (3 v w vs)
  then have ih: "parse_elements (stringify_elements (w # vs) @ '']'') = Some (w # vs)"
    by simp
  from 3 have "v \<noteq> JSNaN" by auto
  then have "parse_value (stringify_elements (v # w # vs) @ '']'')
                 = Some (v, '','' @ stringify_elements (w # vs) @ '']'')"
    by (simp add: parse_value_stringify)
  then show ?case
    by (subst parse_elements.simps) (simp add: ih)
qed

lemma array_JSON_roundtrip:
  "JSNaN \<notin> set vs \<Longrightarrow> parse array_JSON (stringify_array vs) = Some vs"
  by (cases "vs = []")
     (simp_all add: array_JSON_def stringify_array_def parse_array_def
        parse_elements_stringify stringify_elements_nonempty)

text \<open>
  Claim C8, as stated, fails. \<^verbatim>\<open>put("q1", [NaN], [], false, undefined)\<close> succeeds: it
  writes the text \<^verbatim>\<open>[null]\<close> and logs nothing. The \<^verbatim>\<open>get("q1")\<close> that follows, one
  millisecond later, returns \<^verbatim>\<open>[null]\<close>, which is not the array that was put.
\<close>

theorem put_get_roundtrip_counterexample:
  "console (snd nan_put) = []
   \<and> calls (snd nan_put) = [SETEX ''drizzle:q1'' 300 ''[null]'']
   \<and> fst (get array_JSON no_failure 1700000000001 (fst nan_put) ''q1'' (snd nan_put))
       = Inr (Some [JSNull])
   \<and> [JSNull] \<noteq> [JSNaN]"
  by code_simp

text \<open>
  Claim C8, amended. \<^verbatim>\<open>put(key, rows, [], false, absent)\<close> followed by \<^verbatim>\<open>get(key)\<close> returns
  \<^verbatim>\<open>rows\<close>, for every key and for all rows that JSON serialization round-trips
  (\<^verbatim>\<open>JSON.parse\<close> of \<^verbatim>\<open>JSON.stringify(rows)\<close> is \<^verbatim>\<open>rows\<close>, and the text is not empty), when the
  store accepts the write and the read and the default TTL, which must be positive, has
  not elapsed.
\<close>

theorem put_get_roundtrip:
  assumes "redis this = Some client"
      and "stringify J rows = Some payload" and "payload \<noteq> []" and "parse J payload = Some rows"
      and "\<not> fails (SETEX (formatKey this key) (defaultTtl this) payload)"
      and "0 < defaultTtl this"
      and "\<not> fails' (GET (formatKey this key))"
      and "now' < now + defaultTtl this * 1000"
      and "put J fails now this key rows [] False None w = (res, this1, w1)"
  shows "fst (get J fails' now' this1 key w1) = Inr (Some rows)"
proof -
  have ttl: "calculateTtl this now None = defaultTtl this"
    by (simp add: calculateTtl_def)
  from assms have t1: "this1 = this\<lparr>usedTablesPerKey := usedTablesPerKey this\<rparr>"
    and w1: "w1 = w\<lparr>calls := calls w @ [SETEX (formatKey this key) (defaultTtl this) payload],
                    entries := (entries w)(formatKey this key \<mapsto>
                       (now + defaultTtl this * 1000, payload))\<rparr>"
    by (auto simp: put_cases ttl Let_def)
  have fk: "formatKey this1 key = formatKey this key"
    by (simp add: t1 formatKey_def)
  have "live w1 now' (formatKey this key) = Some payload"
    using assms(8) by (simp add: w1 live_def)
  with assms(1,3,4,7) show ?thesis
    by (simp add: get_cases fk) (simp add: t1)
qed

theorem put_get_roundtrip_witness:
  "redis fresh_cache = Some RedisClient
   \<and> stringify array_JSON [JSBool True] = Some ''[true]''
   \<and> parse array_JSON ''[true]'' = Some [JSBool True]
   \<and> \<not> no_failure (SETEX (formatKey fresh_cache ''q1'') (defaultTtl fresh_cache) ''[true]'')
   \<and> 0 < defaultTtl fresh_cache
   \<and> \<not> no_failure (GET (formatKey fresh_cache ''q1''))
   \<and> (1700000299999::int) < 1700000000000 + defaultTtl fresh_cache * 1000
   \<and> fst (get array_JSON no_failure 1700000299999 (fst q1_untracked) ''q1''
            (snd q1_untracked)) = Inr (Some [JSBool True])"
proof -
  have a: "redis fresh_cache = Some RedisClient"
    by (simp add: fresh_cache_def)
  have b: "stringify array_JSON [JSBool True] = Some ''[true]''"
    by code_simp
  have c: "''[true]'' \<noteq> []"
    by simp
  have d: "parse array_JSON ''[true]'' = Some [JSBool True]"
    using array_JSON_roundtrip [of "[JSBool True]"] by (simp add: stringify_array_def)
  have e: "\<not> no_failure (SETEX (formatKey fresh_cache ''q1'') (defaultTtl fresh_cache) ''[true]'')"
    by (simp add: no_failure_def)
  have f: "0 < defaultTtl fresh_cache"
    by (simp add: fresh_cache_def)
  have g: "\<not> no_failure (GET (formatKey fresh_cache ''q1''))"
    by (simp add: no_failure_def)
  have h: "(1700000299999::int) < 1700000000000 + defaultTtl fresh_cache * 1000"
    by (simp add: fresh_cache_def)
  have p: "put array_JSON no_failure 1700000000000 fresh_cache ''q1'' [JSBool True] []
             False None empty_world
           = (fst (put array_JSON no_failure 1700000000000 fresh_cache ''q1'' [JSBool True] []
                     False None empty_world),
              fst q1_untracked, snd q1_untracked)"
    unfolding q1_untracked_def by (rule prod.collapse [symmetric, THEN trans]) simp
  from put_get_roundtrip [where fails = no_failure and fails' = no_failure
      and now = 1700000000000 and now' = 1700000299999, OF a b c d e f g h p]
    a b d e f g h
  show ?thesis by blast
qed

end
